theory Spec2Isabelle
  imports Main "HOL-Library.Word"
begin

section \<open>The service cache of sysdb (src/db/sysdb_services.c)\<close>

text \<open>
  The file under verification holds the lookups \<open>sysdb_getservbyname\<close> and
  \<open>sysdb_getservbyport\<close>, the reconciler \<open>sysdb_store_service\<close> with its helpers
  \<open>sysdb_svc_add\<close>, \<open>sysdb_svc_update\<close> and \<open>sysdb_svc_remove_alias\<close>, and the deleter
  \<open>sysdb_svc_delete\<close>. The ldb store, its transactions, the sanitizers and the memory
  allocator are collaborators whose code is elsewhere; they are modelled below, each one
  marked as such. Every call into a collaborator that the C code checks for failure can
  fail in the model as well: the context carries a schedule of the collaborators' next
  return codes.
\<close>

subsection \<open>Error numbers\<close>

type_synonym errno_t = int

definition EOK :: errno_t where "EOK = 0"
definition ENOENT :: errno_t where "ENOENT = 2"
definition EIO :: errno_t where "EIO = 5"
definition ENOMEM :: errno_t where "ENOMEM = 12"
definition EINVAL :: errno_t where "EINVAL = 22"

definition LDB_SUCCESS :: int where "LDB_SUCCESS = 0"
definition LDB_ERR_NO_SUCH_OBJECT :: int where "LDB_ERR_NO_SUCH_OBJECT = 32"
definition LDB_ERR_ENTRY_ALREADY_EXISTS :: int where "LDB_ERR_ENTRY_ALREADY_EXISTS = 68"

text \<open>
  Modelled from the spec: \<open>sysdb_error_to_errno\<close> (db/sysdb.c) is missing. The spec (6, 7)
  maps the store's status codes into the error taxonomy: success stays success, the
  store's "not found" becomes \<open>NotFound\<close>, every other store error is a \<open>StoreFailure\<close>.
\<close>

definition sysdb_error_to_errno :: "int \<Rightarrow> errno_t" where
  "sysdb_error_to_errno lret =
     (if lret = LDB_SUCCESS then EOK
      else if lret = LDB_ERR_NO_SUCH_OBJECT then ENOENT
      else EIO)"

subsection \<open>Cached records and the store\<close>

text \<open>
  \<open>time_t\<close> and \<open>uint64_t\<close> are 64-bit; \<open>now + cache_timeout\<close> is computed in
  \<open>uint64_t\<close> and converted back to \<open>time_t\<close>, which keeps the 64 bits. \<open>int port\<close> is
  kept as an integer: the code only compares it with 0 and prints it, and every path
  that prints it has checked \<open>port > 0\<close> first, where the casts to \<open>unsigned\<close> change
  nothing.
\<close>

type_synonym time_t = "64 word"
type_synonym ldb_dn = string

text \<open>
  An entry of the service container: the attributes \<open>SYSDB_NAME\<close>, \<open>SYSDB_SVC_PORT\<close>,
  \<open>SYSDB_NAME_ALIAS\<close>, \<open>SYSDB_SVC_PROTO\<close>, \<open>SYSDB_CREATE_TIME\<close>, \<open>SYSDB_LAST_UPDATE\<close> and
  \<open>SYSDB_CACHE_EXPIRE\<close>. An attribute that is absent is \<open>None\<close> or the empty list: the
  code itself expects entries without a name ("A service with no name?").
\<close>

record ldb_message =
  name :: "string option"
  svc_port :: "int option"
  aliases :: "string list"
  protocols :: "string list"
  create_time :: "time_t option"
  last_update :: "time_t option"
  cache_expire :: "time_t option"

type_synonym ldb_result = "(ldb_dn \<times> ldb_message) list"

text \<open>
  The context: the entries of the service container in the order a search returns them,
  the snapshots of the open transactions (innermost first), the name of the domain, what
  \<open>time(NULL)\<close> reads, and the return codes of the collaborators' next calls (\<open>0\<close>: the
  call works; a schedule that has run out: every further call works). Cancelling a
  transaction has a schedule of its own, so that "cancelling works" can be said
  whatever happened before.
\<close>

record sysdb_ctx =
  ldb :: ldb_result
  txs :: "ldb_result list"
  domain_name :: string
  clock :: time_t
  faults :: "int list"
  cancel_faults :: "int list"

definition next_fault :: "sysdb_ctx \<Rightarrow> int \<times> sysdb_ctx" where
  "next_fault s =
     (case faults s of [] \<Rightarrow> (0, s) | f # fs \<Rightarrow> (f, s\<lparr>faults := fs\<rparr>))"

text \<open>
  Allocation (\<open>talloc_new\<close>, \<open>ldb_msg_new\<close>, \<open>ldb_dn_new_fmt\<close>, \<open>sysdb_new_attrs\<close>): the
  result says whether a non-NULL pointer came back.
\<close>

definition talloc_new :: "sysdb_ctx \<Rightarrow> bool \<times> sysdb_ctx" where
  "talloc_new s = (case next_fault s of (f, s') \<Rightarrow> (f = 0, s'))"

definition ldb_msg_new :: "sysdb_ctx \<Rightarrow> bool \<times> sysdb_ctx" where
  "ldb_msg_new s = (case next_fault s of (f, s') \<Rightarrow> (f = 0, s'))"

definition ldb_dn_new_fmt :: "sysdb_ctx \<Rightarrow> bool \<times> sysdb_ctx" where
  "ldb_dn_new_fmt s = (case next_fault s of (f, s') \<Rightarrow> (f = 0, s'))"

definition sysdb_new_attrs :: "sysdb_ctx \<Rightarrow> bool \<times> sysdb_ctx" where
  "sysdb_new_attrs s = (case next_fault s of (f, s') \<Rightarrow> (f = 0, s'))"

text \<open>
  Modelled from the spec: \<open>sss_filter_sanitize\<close> (util) is missing. It escapes a string
  for a search filter, so that the filter compares with the string itself, and fails if
  the string cannot be escaped. The model returns the status; the escaped string stands
  for the raw one.
\<close>

definition sss_filter_sanitize :: "sysdb_ctx \<Rightarrow> errno_t \<times> sysdb_ctx" where
  "sss_filter_sanitize s = next_fault s"

text \<open>
  The helpers that append one element or one value to a message under construction
  (\<open>add_string\<close>, \<open>add_ulong\<close>, \<open>ldb_msg_add_empty\<close>, \<open>ldb_msg_add_string\<close>,
  \<open>ldb_msg_add_fmt\<close>, \<open>sysdb_attrs_add_time_t\<close>) only allocate; the model returns their
  status, and the caller extends the message.
\<close>

definition add_string :: "sysdb_ctx \<Rightarrow> errno_t \<times> sysdb_ctx" where
  "add_string s = next_fault s"

definition add_ulong :: "sysdb_ctx \<Rightarrow> errno_t \<times> sysdb_ctx" where
  "add_ulong s = next_fault s"

definition ldb_msg_add_empty :: "sysdb_ctx \<Rightarrow> int \<times> sysdb_ctx" where
  "ldb_msg_add_empty s = next_fault s"

definition ldb_msg_add_string :: "sysdb_ctx \<Rightarrow> int \<times> sysdb_ctx" where
  "ldb_msg_add_string s = next_fault s"

definition ldb_msg_add_fmt :: "sysdb_ctx \<Rightarrow> int \<times> sysdb_ctx" where
  "ldb_msg_add_fmt s = next_fault s"

definition sysdb_attrs_add_time_t :: "sysdb_ctx \<Rightarrow> errno_t \<times> sysdb_ctx" where
  "sysdb_attrs_add_time_t s = next_fault s"

subsection \<open>Transactions\<close>

text \<open>
  Modelled from the spec: \<open>sysdb_transaction_start\<close>, \<open>sysdb_transaction_commit\<close> and
  \<open>sysdb_transaction_cancel\<close> (db/sysdb.c) are missing. Starting a transaction keeps the
  entries as they are at that moment; committing drops what was kept; cancelling puts it
  back. A call that fails changes nothing.
\<close>

definition sysdb_transaction_start :: "sysdb_ctx \<Rightarrow> errno_t \<times> sysdb_ctx" where
  "sysdb_transaction_start s =
     (case next_fault s of (ret, s') \<Rightarrow>
        if ret \<noteq> EOK then (ret, s') else (EOK, s'\<lparr>txs := ldb s' # txs s'\<rparr>))"

definition sysdb_transaction_commit :: "sysdb_ctx \<Rightarrow> errno_t \<times> sysdb_ctx" where
  "sysdb_transaction_commit s =
     (case next_fault s of (ret, s') \<Rightarrow>
        if ret \<noteq> EOK then (ret, s')
        else (case txs s' of
                [] \<Rightarrow> (EIO, s')
              | t # ts \<Rightarrow> (EOK, s'\<lparr>txs := ts\<rparr>)))"

definition sysdb_transaction_cancel :: "sysdb_ctx \<Rightarrow> errno_t \<times> sysdb_ctx" where
  "sysdb_transaction_cancel s =
     (case cancel_faults s of
        f # fs \<Rightarrow>
          if f \<noteq> EOK then (f, s\<lparr>cancel_faults := fs\<rparr>)
          else (case txs s of
                  [] \<Rightarrow> (EIO, s\<lparr>cancel_faults := fs\<rparr>)
                | t # ts \<Rightarrow> (EOK, s\<lparr>ldb := t, txs := ts, cancel_faults := fs\<rparr>))
      | [] \<Rightarrow>
          (case txs s of
             [] \<Rightarrow> (EIO, s)
           | t # ts \<Rightarrow> (EOK, s\<lparr>ldb := t, txs := ts\<rparr>)))"

subsection \<open>Search, add, modify, delete\<close>

text \<open>
  Modelled from the spec: the filter templates \<open>SYSDB_SVC_BYNAME_FILTER\<close> and
  \<open>SYSDB_SVC_BYPORT_FILTER\<close> (db/sysdb_services.h) and \<open>ldb_search\<close> are missing. By name:
  the primary name or any alias equals the name; by port: the port equals the value; in
  both the protocols contain the protocol if one is given, else any protocol (the code
  passes the pattern \<open>*\<close>, here \<open>None\<close>).
\<close>

datatype svc_filter = By_name "string option" string | By_port "string option" int

definition proto_match :: "string option \<Rightarrow> ldb_message \<Rightarrow> bool" where
  "proto_match proto e =
     (case proto of None \<Rightarrow> protocols e \<noteq> [] | Some p \<Rightarrow> p \<in> set (protocols e))"

fun filter_match :: "svc_filter \<Rightarrow> ldb_message \<Rightarrow> bool" where
  "filter_match (By_name proto n) e =
     (proto_match proto e \<and> (name e = Some n \<or> n \<in> set (aliases e)))"
| "filter_match (By_port proto p) e =
     (proto_match proto e \<and> svc_port e = Some p)"

definition ldb_search :: "sysdb_ctx \<Rightarrow> svc_filter \<Rightarrow> int \<times> ldb_result \<times> sysdb_ctx" where
  "ldb_search s flt =
     (case next_fault s of (lret, s') \<Rightarrow>
        if lret \<noteq> LDB_SUCCESS then (lret, [], s')
        else (LDB_SUCCESS, filter (\<lambda>m. filter_match flt (snd m)) (ldb s'), s'))"

text \<open>
  Modelled from the spec: \<open>ldb_add\<close> and \<open>ldb_modify\<close> are missing. A message is an
  identifier and a list of elements, each with the flag that says what to do with it
  (the spec's \<open>Add\<close>, \<open>ReplaceAll\<close>, \<open>Delete\<close>). Adding creates the entry that has the
  message's elements, and fails if the identifier is taken; modifying changes the entry
  at the identifier, and fails with the store's "not found" if there is none.
\<close>

datatype mod_flag = LDB_FLAG_MOD_ADD | SYSDB_MOD_REP | SYSDB_MOD_DEL

datatype ldb_element =
    El_name string
  | El_port int
  | El_aliases "string list"
  | El_protocols "string list"
  | El_create_time time_t
  | El_last_update time_t
  | El_cache_expire time_t

fun apply_element :: "mod_flag \<times> ldb_element \<Rightarrow> ldb_message \<Rightarrow> ldb_message" where
  "apply_element (SYSDB_MOD_DEL, El_name n) e =
     (if name e = Some n then e\<lparr>name := None\<rparr> else e)"
| "apply_element (SYSDB_MOD_DEL, El_port p) e =
     (if svc_port e = Some p then e\<lparr>svc_port := None\<rparr> else e)"
| "apply_element (SYSDB_MOD_DEL, El_aliases vs) e =
     e\<lparr>aliases := filter (\<lambda>a. a \<notin> set vs) (aliases e)\<rparr>"
| "apply_element (SYSDB_MOD_DEL, El_protocols vs) e =
     e\<lparr>protocols := filter (\<lambda>a. a \<notin> set vs) (protocols e)\<rparr>"
| "apply_element (SYSDB_MOD_DEL, El_create_time t) e =
     (if create_time e = Some t then e\<lparr>create_time := None\<rparr> else e)"
| "apply_element (SYSDB_MOD_DEL, El_last_update t) e =
     (if last_update e = Some t then e\<lparr>last_update := None\<rparr> else e)"
| "apply_element (SYSDB_MOD_DEL, El_cache_expire t) e =
     (if cache_expire e = Some t then e\<lparr>cache_expire := None\<rparr> else e)"
| "apply_element (LDB_FLAG_MOD_ADD, El_aliases vs) e = e\<lparr>aliases := aliases e @ vs\<rparr>"
| "apply_element (LDB_FLAG_MOD_ADD, El_protocols vs) e = e\<lparr>protocols := protocols e @ vs\<rparr>"
| "apply_element (_, El_name n) e = e\<lparr>name := Some n\<rparr>"
| "apply_element (_, El_port p) e = e\<lparr>svc_port := Some p\<rparr>"
| "apply_element (_, El_aliases vs) e = e\<lparr>aliases := vs\<rparr>"
| "apply_element (_, El_protocols vs) e = e\<lparr>protocols := vs\<rparr>"
| "apply_element (_, El_create_time t) e = e\<lparr>create_time := Some t\<rparr>"
| "apply_element (_, El_last_update t) e = e\<lparr>last_update := Some t\<rparr>"
| "apply_element (_, El_cache_expire t) e = e\<lparr>cache_expire := Some t\<rparr>"

definition apply_elements :: "(mod_flag \<times> ldb_element) list \<Rightarrow> ldb_message \<Rightarrow> ldb_message" where
  "apply_elements els e = foldl (\<lambda>e el. apply_element el e) e els"

definition empty_message :: ldb_message where
  "empty_message =
     \<lparr>name = None, svc_port = None, aliases = [], protocols = [],
      create_time = None, last_update = None, cache_expire = None\<rparr>"

definition ldb_add :: "sysdb_ctx \<Rightarrow> ldb_dn \<times> (mod_flag \<times> ldb_element) list \<Rightarrow> int \<times> sysdb_ctx" where
  "ldb_add s msg =
     (case next_fault s of (lret, s') \<Rightarrow>
        if lret \<noteq> LDB_SUCCESS then (lret, s')
        else if fst msg \<in> set (map fst (ldb s')) then (LDB_ERR_ENTRY_ALREADY_EXISTS, s')
        else (LDB_SUCCESS,
              s'\<lparr>ldb := ldb s' @ [(fst msg, apply_elements (snd msg) empty_message)]\<rparr>))"

definition ldb_modify :: "sysdb_ctx \<Rightarrow> ldb_dn \<times> (mod_flag \<times> ldb_element) list \<Rightarrow> int \<times> sysdb_ctx" where
  "ldb_modify s msg =
     (case next_fault s of (lret, s') \<Rightarrow>
        if lret \<noteq> LDB_SUCCESS then (lret, s')
        else if fst msg \<notin> set (map fst (ldb s')) then (LDB_ERR_NO_SUCH_OBJECT, s')
        else (LDB_SUCCESS,
              s'\<lparr>ldb := map (\<lambda>m. if fst m = fst msg
                                    then (fst m, apply_elements (snd msg) (snd m)) else m)
                              (ldb s')\<rparr>))"

text \<open>
  Modelled from the spec: \<open>sysdb_delete_entry\<close> and \<open>sysdb_set_entry_attr\<close> (db/sysdb.c and
  db/sysdb_ops.c) are missing. Deleting removes the entry at the identifier. The
  reconciler passes \<open>true\<close> and the deleter \<open>false\<close> as the last argument; the entries of
  the service container have nothing below them, and the argument decides only whether
  an identifier that is not there counts as done (the spec's "delete of a non-existent
  record") or as the store's "not found". Setting attributes is a modification of the
  entry with one flag for all elements.
\<close>

definition sysdb_delete_entry :: "sysdb_ctx \<Rightarrow> ldb_dn \<Rightarrow> bool \<Rightarrow> errno_t \<times> sysdb_ctx" where
  "sysdb_delete_entry s dn ignore_not_found =
     (case next_fault s of (ret, s') \<Rightarrow>
        if ret \<noteq> EOK then (ret, s')
        else if dn \<in> set (map fst (ldb s'))
          then (EOK, s'\<lparr>ldb := filter (\<lambda>m. fst m \<noteq> dn) (ldb s')\<rparr>)
        else if ignore_not_found then (EOK, s')
        else (ENOENT, s'))"

definition sysdb_set_entry_attr ::
  "sysdb_ctx \<Rightarrow> ldb_dn \<Rightarrow> ldb_element list \<Rightarrow> mod_flag \<Rightarrow> errno_t \<times> sysdb_ctx" where
  "sysdb_set_entry_attr s dn attrs mod_op =
     (case ldb_msg_new s of (ok, s1) \<Rightarrow>
        if \<not> ok then (ENOMEM, s1)
        else (case ldb_modify s1 (dn, map (\<lambda>a. (mod_op, a)) attrs) of (lret, s2) \<Rightarrow>
                (sysdb_error_to_errno lret, s2)))"

subsection \<open>Lookup: \<open>sysdb_getservbyname\<close> and \<open>sysdb_getservbyport\<close>\<close>

text \<open>
  The result is \<open>Inl ret\<close> when the C function returns \<open>ret\<close> and leaves no result, and
  \<open>Inr res\<close> when it returns \<open>EOK\<close> and hands \<open>res\<close> over through \<open>_res\<close>.
\<close>

definition sysdb_getservbyname ::
  "sysdb_ctx \<Rightarrow> string \<Rightarrow> string option \<Rightarrow> (errno_t + ldb_result) \<times> sysdb_ctx" where
  "sysdb_getservbyname s nm proto =
     (case talloc_new s of (ok, s1) \<Rightarrow>
        if \<not> ok then (Inl ENOMEM, s1) else
     (case ldb_dn_new_fmt s1 of (ok, s2) \<Rightarrow>
        if \<not> ok then (Inl ENOMEM, s2) else
     (case sss_filter_sanitize s2 of (ret, s3) \<Rightarrow>
        if ret \<noteq> EOK then (Inl ret, s3) else
     (case (case proto of None \<Rightarrow> (EOK, s3) | Some p \<Rightarrow> sss_filter_sanitize s3) of (ret, s4) \<Rightarrow>
        if ret \<noteq> EOK then (Inl ret, s4) else
     (case ldb_search s4 (By_name proto nm) of (lret, res, s5) \<Rightarrow>
        if lret \<noteq> LDB_SUCCESS then (Inl (sysdb_error_to_errno lret), s5)
        else if length res = 0 then (Inl ENOENT, s5)
        else (Inr res, s5))))))"

definition sysdb_getservbyport ::
  "sysdb_ctx \<Rightarrow> int \<Rightarrow> string option \<Rightarrow> (errno_t + ldb_result) \<times> sysdb_ctx" where
  "sysdb_getservbyport s port proto =
     (if port \<le> 0 then (Inl EINVAL, s) else
     (case talloc_new s of (ok, s1) \<Rightarrow>
        if \<not> ok then (Inl ENOMEM, s1) else
     (case ldb_dn_new_fmt s1 of (ok, s2) \<Rightarrow>
        if \<not> ok then (Inl ENOMEM, s2) else
     (case (case proto of None \<Rightarrow> (EOK, s2) | Some p \<Rightarrow> sss_filter_sanitize s2) of (ret, s3) \<Rightarrow>
        if ret \<noteq> EOK then (Inl ret, s3) else
     (case ldb_search s3 (By_port proto port) of (lret, res, s4) \<Rightarrow>
        if lret \<noteq> 0 then (Inl (sysdb_error_to_errno lret), s4)
        else if length res = 0 then (Inl ENOENT, s4)
        else (Inr res, s4))))))"

subsection \<open>The helpers \<open>sysdb_svc_dn\<close>, \<open>sysdb_svc_add\<close>, \<open>sysdb_svc_update\<close>, \<open>sysdb_svc_remove_alias\<close>\<close>

text \<open>
  Modelled from the spec: \<open>sysdb_dn_sanitize\<close> and the template \<open>SYSDB_TMPL_SVC\<close>
  (db/sysdb.h) are missing. The identifier of a record is derived from its primary name
  and the domain, and from nothing else.
\<close>

definition sysdb_dn_sanitize :: "sysdb_ctx \<Rightarrow> errno_t \<times> sysdb_ctx" where
  "sysdb_dn_sanitize s = next_fault s"

definition SYSDB_TMPL_SVC :: "string \<Rightarrow> string \<Rightarrow> ldb_dn" where
  "SYSDB_TMPL_SVC clean_name domain =
     ''name='' @ clean_name @ '',cn=services,cn='' @ domain @ '',cn=sysdb''"

definition sysdb_svc_dn :: "sysdb_ctx \<Rightarrow> string \<Rightarrow> string \<Rightarrow> ldb_dn option \<times> sysdb_ctx" where
  "sysdb_svc_dn s domain nm =
     (case sysdb_dn_sanitize s of (ret, s1) \<Rightarrow>
        if ret \<noteq> EOK then (None, s1) else
     (case ldb_dn_new_fmt s1 of (ok, s2) \<Rightarrow>
        if \<not> ok then (None, s2) else (Some (SYSDB_TMPL_SVC nm domain), s2)))"

text \<open>The loops \<open>for (i = 0; values[i]; i++)\<close> that append the values of an element.\<close>

fun ldb_msg_add_strings :: "sysdb_ctx \<Rightarrow> string list \<Rightarrow> int \<times> sysdb_ctx" where
  "ldb_msg_add_strings s [] = (LDB_SUCCESS, s)"
| "ldb_msg_add_strings s (v # vs) =
     (case ldb_msg_add_string s of (lret, s1) \<Rightarrow>
        if lret \<noteq> LDB_SUCCESS then (lret, s1) else ldb_msg_add_strings s1 vs)"

fun ldb_msg_add_fmts :: "sysdb_ctx \<Rightarrow> string list \<Rightarrow> int \<times> sysdb_ctx" where
  "ldb_msg_add_fmts s [] = (LDB_SUCCESS, s)"
| "ldb_msg_add_fmts s (v # vs) =
     (case ldb_msg_add_fmt s of (lret, s1) \<Rightarrow>
        if lret \<noteq> LDB_SUCCESS then (lret, s1) else ldb_msg_add_fmts s1 vs)"

text \<open>
  \<open>sysdb_svc_add\<close>, in the order of the source: the identifier, the object class, the
  name and the port (lines 444-464); the aliases, if there are any (lines 466-482); the
  protocols (lines 484-497); the creation time and the call of \<open>ldb_add\<close> (lines
  499-509). The object class is appended like the other elements; the modelled container
  holds service entries only, so the entry does not record it.
\<close>

definition svc_add_names :: "sysdb_ctx \<Rightarrow> string \<Rightarrow> (errno_t + ldb_dn) \<times> sysdb_ctx" where
  "svc_add_names s primary_name =
     (case sysdb_svc_dn s (domain_name s) primary_name of
        (None, s1) \<Rightarrow> (Inl ENOMEM, s1)
      | (Some dn, s1) \<Rightarrow>
     (case add_string s1 of (ret, s2) \<Rightarrow>
        if ret \<noteq> EOK then (Inl ret, s2) else
     (case add_string s2 of (ret, s3) \<Rightarrow>
        if ret \<noteq> EOK then (Inl ret, s3) else
     (case add_ulong s3 of (ret, s4) \<Rightarrow>
        if ret \<noteq> EOK then (Inl ret, s4) else (Inr dn, s4)))))"

definition svc_add_aliases :: "sysdb_ctx \<Rightarrow> string list \<Rightarrow> errno_t \<times> sysdb_ctx" where
  "svc_add_aliases s als =
     (if als \<noteq> [] then
        (case ldb_msg_add_empty s of (lret, s1) \<Rightarrow>
           if lret \<noteq> LDB_SUCCESS then (sysdb_error_to_errno lret, s1) else
        (case ldb_msg_add_strings s1 als of (lret, s2) \<Rightarrow>
           if lret \<noteq> LDB_SUCCESS then (sysdb_error_to_errno lret, s2) else (EOK, s2)))
      else (EOK, s))"

definition svc_add_protocols :: "sysdb_ctx \<Rightarrow> string list \<Rightarrow> errno_t \<times> sysdb_ctx" where
  "svc_add_protocols s protos =
     (case ldb_msg_add_empty s of (lret, s1) \<Rightarrow>
        if lret \<noteq> LDB_SUCCESS then (sysdb_error_to_errno lret, s1) else
     (case ldb_msg_add_strings s1 protos of (lret, s2) \<Rightarrow>
        if lret \<noteq> LDB_SUCCESS then (sysdb_error_to_errno lret, s2) else (EOK, s2)))"

text \<open>
  The result is \<open>Inr dn\<close> when the function returns \<open>EOK\<close> and hands the identifier of
  the new entry over through \<open>dn\<close>, and \<open>Inl ret\<close> when it returns the error \<open>ret\<close>.
\<close>

definition sysdb_svc_add ::
  "sysdb_ctx \<Rightarrow> string \<Rightarrow> int \<Rightarrow> string list \<Rightarrow> string list \<Rightarrow> (errno_t + ldb_dn) \<times> sysdb_ctx" where
  "sysdb_svc_add s primary_name port als protos =
     (case talloc_new s of (ok, s1) \<Rightarrow>
        if \<not> ok then (Inl ENOMEM, s1) else
     (case ldb_msg_new s1 of (ok, s2) \<Rightarrow>
        if \<not> ok then (Inl ENOMEM, s2) else
     (case svc_add_names s2 primary_name of
        (Inl ret, s3) \<Rightarrow> (Inl ret, s3)
      | (Inr dn, s3) \<Rightarrow>
     (case svc_add_aliases s3 als of (ret, s4) \<Rightarrow>
        if ret \<noteq> EOK then (Inl ret, s4) else
     (case svc_add_protocols s4 protos of (ret, s5) \<Rightarrow>
        if ret \<noteq> EOK then (Inl ret, s5) else
     (case add_ulong s5 of (ret, s6) \<Rightarrow>
        if ret \<noteq> 0 then (Inl ret, s6) else
     (case ldb_add s6
             (dn, [(LDB_FLAG_MOD_ADD, El_name primary_name), (LDB_FLAG_MOD_ADD, El_port port)]
                  @ (if als \<noteq> [] then [(LDB_FLAG_MOD_ADD, El_aliases als)] else [])
                  @ [(LDB_FLAG_MOD_ADD, El_protocols protos),
                     (LDB_FLAG_MOD_ADD, El_create_time (clock s6))]) of (lret, s7) \<Rightarrow>
        (if sysdb_error_to_errno lret = EOK then Inr dn
         else Inl (sysdb_error_to_errno lret), s7))))))))"

definition sysdb_svc_update ::
  "sysdb_ctx \<Rightarrow> ldb_dn option \<Rightarrow> int \<Rightarrow> string list \<Rightarrow> string list \<Rightarrow> errno_t \<times> sysdb_ctx" where
  "sysdb_svc_update s dn port als protos =
     (case dn of None \<Rightarrow> (EINVAL, s) | Some d \<Rightarrow>
        if protos = [] then (EINVAL, s) else
     (case ldb_msg_new s of (ok, s1) \<Rightarrow>
        if \<not> ok then (ENOMEM, s1) else
     (case add_ulong s1 of (ret, s2) \<Rightarrow>
        if ret \<noteq> EOK then (ret, s2) else
     (case (if als \<noteq> [] then
              (case ldb_msg_add_empty s2 of (lret, s3) \<Rightarrow>
                 if lret \<noteq> LDB_SUCCESS then (ENOMEM, s3)
                 else (case ldb_msg_add_fmts s3 als of (lret, s4) \<Rightarrow>
                         if lret \<noteq> LDB_SUCCESS then (EINVAL, s4) else (EOK, s4)))
            else (EOK, s2)) of (ret, s4) \<Rightarrow>
        if ret \<noteq> EOK then (ret, s4) else
     (case ldb_msg_add_empty s4 of (lret, s5) \<Rightarrow>
        if lret \<noteq> LDB_SUCCESS then (ENOMEM, s5) else
     (case ldb_msg_add_fmts s5 protos of (lret, s6) \<Rightarrow>
        if lret \<noteq> LDB_SUCCESS then (EINVAL, s6) else
     (case ldb_modify s6
             (d, [(SYSDB_MOD_REP, El_port port)]
                 @ (if als \<noteq> [] then [(SYSDB_MOD_REP, El_aliases als)] else [])
                 @ [(SYSDB_MOD_REP, El_protocols protos)]) of (lret, s7) \<Rightarrow>
        (sysdb_error_to_errno lret, s7))))))))"

definition sysdb_svc_remove_alias :: "sysdb_ctx \<Rightarrow> ldb_dn \<Rightarrow> string \<Rightarrow> errno_t \<times> sysdb_ctx" where
  "sysdb_svc_remove_alias s dn alias =
     (case ldb_msg_new s of (ok, s1) \<Rightarrow>
        if \<not> ok then (ENOMEM, s1) else
     (case add_string s1 of (ret, s2) \<Rightarrow>
        if ret \<noteq> EOK then (ret, s2) else
     (case ldb_modify s2 (dn, [(SYSDB_MOD_DEL, El_aliases [alias])]) of (lret, s3) \<Rightarrow>
        (sysdb_error_to_errno lret, s3))))"

subsection \<open>The reconciler \<open>sysdb_store_service\<close>\<close>

text \<open>
  A step of the function either jumps to the label \<open>done\<close> with the value of \<open>ret\<close>, or
  goes on to the next statement.
\<close>

datatype 'a flow = Goto_done errno_t | Continue 'a

text \<open>Lines 223-237: more than one entry has the port; all of them are deleted.\<close>

fun delete_port_entries :: "sysdb_ctx \<Rightarrow> ldb_result \<Rightarrow> errno_t \<times> sysdb_ctx" where
  "delete_port_entries s [] = (EOK, s)"
| "delete_port_entries s (m # ms) =
     (case sysdb_delete_entry s (fst m) True of (ret, s1) \<Rightarrow>
        if ret \<noteq> EOK then (ret, s1) else delete_port_entries s1 ms)"

text \<open>
  Lines 214-273, the port pass. When exactly one entry has the port and its name is
  missing or is not \<open>primary_name\<close> (\<open>!name || strcmp(name, primary_name) != 0\<close>: the
  name is not \<open>Some primary_name\<close>), the entry is deleted; the result of that call is
  logged (lines 264-269) and execution goes on to the name pass, which overwrites \<open>ret\<close>.
\<close>

definition port_pass :: "sysdb_ctx \<Rightarrow> string \<Rightarrow> int \<Rightarrow> unit flow \<times> sysdb_ctx" where
  "port_pass s primary_name port =
     (case sysdb_getservbyport s port None of
        (Inl ret, s1) \<Rightarrow>
          if ret \<noteq> EOK \<and> ret \<noteq> ENOENT then (Goto_done ret, s1) else (Continue (), s1)
      | (Inr res, s1) \<Rightarrow>
          (case res of
             [m] \<Rightarrow>
               if name (snd m) \<noteq> Some primary_name
               then (case sysdb_delete_entry s1 (fst m) True of (ret, s2) \<Rightarrow> (Continue (), s2))
               else (Continue (), s1)
           | _ \<Rightarrow>
               (case delete_port_entries s1 res of (ret, s2) \<Rightarrow>
                  if ret \<noteq> EOK then (Goto_done ret, s2) else (Continue (), s2))))"

text \<open>
  Lines 284-355, the loop of the name pass over the entries found, with the local
  \<open>update_dn\<close> (\<open>None\<close> is \<open>NULL\<close>).
\<close>

fun name_loop ::
  "sysdb_ctx \<Rightarrow> string \<Rightarrow> ldb_dn option \<Rightarrow> ldb_result \<Rightarrow> ldb_dn option flow \<times> sysdb_ctx" where
  "name_loop s primary_name update_dn [] = (Continue update_dn, s)"
| "name_loop s primary_name update_dn (m # ms) =
     (case name (snd m) of
        None \<Rightarrow>
          (case sysdb_delete_entry s (fst m) True of (ret, s1) \<Rightarrow>
             if ret \<noteq> EOK then (Goto_done ret, s1)
             else name_loop s1 primary_name update_dn ms)
      | Some n \<Rightarrow>
          if n = primary_name then
            (case update_dn of
               Some u \<Rightarrow>
                 (case sysdb_delete_entry s u True of (ret, s1) \<Rightarrow>
                    if ret \<noteq> EOK then (Goto_done ret, s1) else
                 (case sysdb_delete_entry s1 (fst m) True of (ret, s2) \<Rightarrow>
                    if ret \<noteq> EOK then (Goto_done ret, s2)
                    else name_loop s2 primary_name None ms))
             | None \<Rightarrow> name_loop s primary_name (Some (fst m)) ms)
          else
            (case sysdb_svc_remove_alias s (fst m) primary_name of (ret, s1) \<Rightarrow>
               if ret \<noteq> EOK then (Goto_done ret, s1)
               else name_loop s1 primary_name update_dn ms))"

text \<open>Lines 280-357, the name pass.\<close>

definition name_pass :: "sysdb_ctx \<Rightarrow> string \<Rightarrow> ldb_dn option flow \<times> sysdb_ctx" where
  "name_pass s primary_name =
     (case sysdb_getservbyname s primary_name None of
        (Inl ret, s1) \<Rightarrow>
          if ret \<noteq> EOK \<and> ret \<noteq> ENOENT then (Goto_done ret, s1) else (Continue None, s1)
      | (Inr res, s1) \<Rightarrow> name_loop s1 primary_name None res)"

text \<open>
  Lines 359-367: update the entry found, or add a new one. \<open>Inr\<close> carries \<open>update_dn\<close>
  as it is after the statement when \<open>ret\<close> is \<open>EOK\<close>.
\<close>

definition apply_record ::
  "sysdb_ctx \<Rightarrow> ldb_dn option \<Rightarrow> string \<Rightarrow> int \<Rightarrow> string list \<Rightarrow> string list
     \<Rightarrow> (errno_t + ldb_dn) \<times> sysdb_ctx" where
  "apply_record s update_dn primary_name port als protos =
     (case update_dn of
        Some u \<Rightarrow>
          (case sysdb_svc_update s update_dn port als protos of (ret, s1) \<Rightarrow>
             (if ret \<noteq> EOK then Inl ret else Inr u, s1))
      | None \<Rightarrow> sysdb_svc_add s primary_name port als protos)"

text \<open>Lines 369-384: the time stamps of the entry.\<close>

definition set_timestamps ::
  "sysdb_ctx \<Rightarrow> ldb_dn \<Rightarrow> 64 word \<Rightarrow> time_t \<Rightarrow> errno_t \<times> sysdb_ctx" where
  "set_timestamps s update_dn cache_timeout now =
     (case sysdb_new_attrs s of (ok, s1) \<Rightarrow>
        if \<not> ok then (ENOMEM, s1) else
     (case sysdb_attrs_add_time_t s1 of (ret, s2) \<Rightarrow>
        if ret \<noteq> 0 then (ret, s2) else
     (case sysdb_attrs_add_time_t s2 of (ret, s3) \<Rightarrow>
        if ret \<noteq> 0 then (ret, s3) else
        sysdb_set_entry_attr s3 update_dn
          [El_last_update now,
           El_cache_expire (if cache_timeout \<noteq> 0 then now + cache_timeout else 0)]
          SYSDB_MOD_REP)))"

text \<open>
  Lines 207-387, from the first statement inside the transaction to the commit. The
  result is \<open>ret\<close> and the local \<open>in_transaction\<close> as they are at the label \<open>done\<close>.
\<close>

definition store_steps ::
  "sysdb_ctx \<Rightarrow> string \<Rightarrow> int \<Rightarrow> string list \<Rightarrow> string list \<Rightarrow> 64 word \<Rightarrow> time_t
     \<Rightarrow> errno_t \<times> bool \<times> sysdb_ctx" where
  "store_steps s primary_name port als protos cache_timeout now =
     (case port_pass s primary_name port of
        (Goto_done ret, s1) \<Rightarrow> (ret, True, s1)
      | (Continue _, s1) \<Rightarrow>
     (case name_pass s1 primary_name of
        (Goto_done ret, s2) \<Rightarrow> (ret, True, s2)
      | (Continue update_dn, s2) \<Rightarrow>
     (case apply_record s2 update_dn primary_name port als protos of
        (Inl ret, s3) \<Rightarrow> (ret, True, s3)
      | (Inr dn, s3) \<Rightarrow>
     (case set_timestamps s3 dn cache_timeout now of (ret, s4) \<Rightarrow>
        if ret \<noteq> EOK then (ret, True, s4) else
     (case sysdb_transaction_commit s4 of (ret, s5) \<Rightarrow>
        (ret, ret \<noteq> EOK, s5))))))"

text \<open>The label \<open>done\<close>: cancel if in a transaction; a failure to cancel is only logged.\<close>

definition store_done :: "errno_t \<Rightarrow> bool \<Rightarrow> sysdb_ctx \<Rightarrow> errno_t \<times> sysdb_ctx" where
  "store_done ret in_transaction s =
     (if in_transaction
      then (case sysdb_transaction_cancel s of (sret, s') \<Rightarrow> (ret, s'))
      else (ret, s))"

definition sysdb_store_service ::
  "sysdb_ctx \<Rightarrow> string \<Rightarrow> int \<Rightarrow> string list \<Rightarrow> string list \<Rightarrow> 64 word \<Rightarrow> time_t
     \<Rightarrow> errno_t \<times> sysdb_ctx" where
  "sysdb_store_service s primary_name port als protos cache_timeout now =
     (case talloc_new s of (ok, s0) \<Rightarrow>
        if \<not> ok then (ENOMEM, s0) else
     (case sysdb_transaction_start s0 of (ret, s1) \<Rightarrow>
        if ret \<noteq> EOK then store_done ret False s1 else
     (case store_steps s1 primary_name port als protos cache_timeout now of
        (ret, in_transaction, s2) \<Rightarrow> store_done ret in_transaction s2)))"

subsection \<open>The deleter \<open>sysdb_svc_delete\<close>\<close>

text \<open>
  The local \<open>in_transaction\<close> is declared without a value (line 636) and assigned at
  line 646; \<open>None\<close> is the variable before its first assignment. To read it then is not
  defined by the language: the model has a result of its own for that.
\<close>

datatype 'a c_exec = Uninitialized_read | Returns 'a

fun delete_found_entries :: "sysdb_ctx \<Rightarrow> ldb_result \<Rightarrow> errno_t \<times> sysdb_ctx" where
  "delete_found_entries s [] = (EOK, s)"
| "delete_found_entries s (m # ms) =
     (case sysdb_delete_entry s (fst m) False of (ret, s1) \<Rightarrow>
        if ret \<noteq> EOK then (ret, s1) else delete_found_entries s1 ms)"

definition svc_delete_done ::
  "errno_t \<Rightarrow> bool option \<Rightarrow> sysdb_ctx \<Rightarrow> (errno_t \<times> sysdb_ctx) c_exec" where
  "svc_delete_done ret in_transaction s =
     (case in_transaction of
        None \<Rightarrow> Uninitialized_read
      | Some True \<Rightarrow> (case sysdb_transaction_cancel s of (sret, s') \<Rightarrow> Returns (ret, s'))
      | Some False \<Rightarrow> Returns (ret, s))"

definition sysdb_svc_delete ::
  "sysdb_ctx \<Rightarrow> string option \<Rightarrow> int \<Rightarrow> string option \<Rightarrow> (errno_t \<times> sysdb_ctx) c_exec" where
  "sysdb_svc_delete s nm port proto =
     (case talloc_new s of (ok, s0) \<Rightarrow>
        if \<not> ok then Returns (ENOMEM, s0) else
     (case sysdb_transaction_start s0 of (ret, s1) \<Rightarrow>
        if ret \<noteq> EOK then svc_delete_done ret None s1 else
     (case (case nm of
              Some n \<Rightarrow> sysdb_getservbyname s1 n proto
            | None \<Rightarrow> sysdb_getservbyport s1 port proto) of
        (Inl ret, s2) \<Rightarrow>
          if ret \<noteq> EOK \<and> ret \<noteq> ENOENT then svc_delete_done ret (Some True) s2
          else svc_delete_done EOK (Some True) s2
      | (Inr res, s2) \<Rightarrow>
     (case delete_found_entries s2 res of (ret, s3) \<Rightarrow>
        if ret \<noteq> EOK then svc_delete_done ret (Some True) s3 else
     (case sysdb_transaction_commit s3 of (ret, s4) \<Rightarrow>
        svc_delete_done ret (Some False) s4)))))"

subsection \<open>Notions used in the statements and proofs\<close>

text \<open>
  What a step leaves alone: the open transactions, the schedule of cancellations, the
  domain and the clock.
\<close>

definition frame :: "sysdb_ctx \<Rightarrow> sysdb_ctx \<Rightarrow> bool" where
  "frame s s' \<longleftrightarrow> txs s' = txs s \<and> cancel_faults s' = cancel_faults s \<and>
     domain_name s' = domain_name s \<and> clock s' = clock s"

text \<open>The next call of \<open>sysdb_transaction_cancel\<close> does not fail.\<close>

definition cancel_works :: "sysdb_ctx \<Rightarrow> bool" where
  "cancel_works s = (case cancel_faults s of [] \<Rightarrow> True | f # fs \<Rightarrow> f = EOK)"

text \<open>The entry that \<open>sysdb_svc_add\<close> hands to \<open>ldb_add\<close>.\<close>

definition new_entry :: "sysdb_ctx \<Rightarrow> string \<Rightarrow> int \<Rightarrow> string list \<Rightarrow> string list \<Rightarrow> ldb_message" where
  "new_entry s primary_name port als protos =
     \<lparr>name = Some primary_name, svc_port = Some port, aliases = als, protocols = protos,
      create_time = Some (clock s), last_update = None, cache_expire = None\<rparr>"

text \<open>
  The invariant of the loop of the name pass, for the entries \<open>db\<close> of the store, the
  local \<open>update_dn\<close> and the entries \<open>ms\<close> still to visit: identifiers are unique; an
  entry that a lookup of the name finds is still to be visited or is the one at
  \<open>update_dn\<close>; the entry at \<open>update_dn\<close> has the name; the entries still to visit are
  in the store as they were found.
\<close>

definition name_inv :: "string \<Rightarrow> ldb_result \<Rightarrow> ldb_dn option \<Rightarrow> ldb_result \<Rightarrow> bool" where
  "name_inv pn db u ms \<longleftrightarrow>
     distinct (map fst db) \<and> distinct (map fst ms) \<and>
     (\<forall>m \<in> set db. filter_match (By_name None pn) (snd m) \<longrightarrow> m \<in> set ms \<or> u = Some (fst m)) \<and>
     (\<forall>m \<in> set db. u = Some (fst m) \<longrightarrow> name (snd m) = Some pn) \<and>
     (\<forall>m \<in> set ms. \<forall>m' \<in> set db. fst m' = fst m \<longrightarrow> m' = m)"

text \<open>
  Port uniqueness, the first invariant of the cache: no two entries have the same
  port. The port pass adds to it, for the port being stored: every entry has a protocol
  (so that lookups find it), and an entry with that port has the primary name being
  stored.
\<close>

definition port_unique :: "ldb_result \<Rightarrow> bool" where
  "port_unique db \<longleftrightarrow>
     (\<forall>m \<in> set db. \<forall>m' \<in> set db. \<forall>p.
        svc_port (snd m) = Some p \<and> svc_port (snd m') = Some p \<longrightarrow> m = m')"

definition port_inv :: "string \<Rightarrow> int \<Rightarrow> ldb_result \<Rightarrow> bool" where
  "port_inv pn port db \<longleftrightarrow>
     port_unique db \<and> (\<forall>m \<in> set db. protocols (snd m) \<noteq> []) \<and>
     (\<forall>m \<in> set db. svc_port (snd m) = Some port \<longrightarrow> name (snd m) = Some pn)"

section \<open>Evaluation\<close>

lemmas errno_defs = EOK_def ENOENT_def EIO_def ENOMEM_def EINVAL_def
  LDB_SUCCESS_def LDB_ERR_NO_SUCH_OBJECT_def LDB_ERR_ENTRY_ALREADY_EXISTS_def

lemmas alloc_defs = talloc_new_def ldb_msg_new_def ldb_dn_new_fmt_def sysdb_new_attrs_def
  sss_filter_sanitize_def add_string_def add_ulong_def ldb_msg_add_empty_def
  ldb_msg_add_string_def ldb_msg_add_fmt_def sysdb_attrs_add_time_t_def sysdb_dn_sanitize_def

lemmas store_defs = sysdb_transaction_start_def sysdb_transaction_commit_def
  sysdb_transaction_cancel_def ldb_search_def ldb_add_def ldb_modify_def
  sysdb_delete_entry_def sysdb_set_entry_attr_def sysdb_error_to_errno_def
  proto_match_def apply_elements_def empty_message_def SYSDB_TMPL_SVC_def

lemmas svc_defs = sysdb_getservbyname_def sysdb_getservbyport_def sysdb_svc_dn_def
  svc_add_names_def svc_add_aliases_def svc_add_protocols_def
  sysdb_svc_add_def sysdb_svc_update_def sysdb_svc_remove_alias_def port_pass_def
  name_pass_def apply_record_def set_timestamps_def store_steps_def store_done_def
  sysdb_store_service_def svc_delete_done_def sysdb_svc_delete_def

lemmas eval_defs = next_fault_def errno_defs alloc_defs store_defs svc_defs

section \<open>What each step does to the store\<close>

lemma frame_refl [simp]: "frame s s"
  by (simp add: frame_def)

lemma frame_trans: "frame s s1 \<Longrightarrow> frame s1 s2 \<Longrightarrow> frame s s2"
  by (auto simp: frame_def)

lemma next_faultD: "next_fault s = (f, s') \<Longrightarrow> ldb s' = ldb s \<and> frame s s'"
  by (auto simp: next_fault_def frame_def split: list.splits)

lemma next_fault_free: "faults s = [] \<Longrightarrow> next_fault s = (0, s)"
  by (simp add: next_fault_def)

lemma ldb_searchD:
  "ldb_search s flt = (lret, res, s') \<Longrightarrow>
     ldb s' = ldb s \<and> frame s s' \<and>
     (lret = LDB_SUCCESS \<longrightarrow> res = filter (\<lambda>m. filter_match flt (snd m)) (ldb s))"
  by (auto simp: ldb_search_def split: prod.splits if_splits dest!: next_faultD)

lemma getservbyname_frame:
  "sysdb_getservbyname s nm proto = (r, s') \<Longrightarrow> ldb s' = ldb s \<and> frame s s'"
  unfolding sysdb_getservbyname_def
  by (auto simp: alloc_defs frame_def split: prod.splits if_splits option.splits
      dest!: next_faultD ldb_searchD)

lemma getservbyport_frame:
  "sysdb_getservbyport s port proto = (r, s') \<Longrightarrow> ldb s' = ldb s \<and> frame s s'"
  unfolding sysdb_getservbyport_def
  by (auto simp: alloc_defs frame_def split: prod.splits if_splits option.splits
      dest!: next_faultD ldb_searchD)

lemma getservbyname_Inr:
  "sysdb_getservbyname s nm proto = (Inr res, s') \<Longrightarrow>
     res = filter (\<lambda>m. filter_match (By_name proto nm) (snd m)) (ldb s) \<and> res \<noteq> []"
  unfolding sysdb_getservbyname_def
  by (auto simp: alloc_defs split: prod.splits if_splits option.splits
      dest!: next_faultD ldb_searchD)

lemma getservbyport_Inr:
  "sysdb_getservbyport s port proto = (Inr res, s') \<Longrightarrow>
     res = filter (\<lambda>m. filter_match (By_port proto port) (snd m)) (ldb s) \<and> res \<noteq> [] \<and> 0 < port"
  unfolding sysdb_getservbyport_def
  by (auto simp: alloc_defs LDB_SUCCESS_def split: prod.splits if_splits option.splits
      dest!: next_faultD ldb_searchD)

lemma getservbyname_Inl:
  "sysdb_getservbyname s nm proto = (Inl e, s') \<Longrightarrow> e \<noteq> EOK"
  unfolding sysdb_getservbyname_def
  by (auto simp: alloc_defs errno_defs sysdb_error_to_errno_def split: prod.splits if_splits option.splits)

lemma getservbyport_Inl:
  "sysdb_getservbyport s port proto = (Inl e, s') \<Longrightarrow> e \<noteq> EOK"
  unfolding sysdb_getservbyport_def
  by (auto simp: alloc_defs errno_defs sysdb_error_to_errno_def split: prod.splits if_splits option.splits)

lemma getservbyname_free:
  "faults s = [] \<Longrightarrow> sysdb_getservbyname s nm proto =
     (let res = filter (\<lambda>m. filter_match (By_name proto nm) (snd m)) (ldb s)
      in if res = [] then (Inl ENOENT, s) else (Inr res, s))"
  by (simp add: sysdb_getservbyname_def alloc_defs next_fault_free ldb_search_def errno_defs Let_def
      split: option.splits)

lemma getservbyport_free:
  "faults s = [] \<Longrightarrow> 0 < port \<Longrightarrow> sysdb_getservbyport s port proto =
     (let res = filter (\<lambda>m. filter_match (By_port proto port) (snd m)) (ldb s)
      in if res = [] then (Inl ENOENT, s) else (Inr res, s))"
  by (simp add: sysdb_getservbyport_def alloc_defs next_fault_free ldb_search_def errno_defs Let_def
      split: option.splits)

lemma add_stringsD: "ldb_msg_add_strings s vs = (lret, s') \<Longrightarrow> ldb s' = ldb s \<and> frame s s'"
proof (induction vs arbitrary: s)
  case Nil
  then show ?case by simp
next
  case (Cons v vs)
  then show ?case
    by (auto simp: ldb_msg_add_string_def frame_def split: prod.splits if_splits
        dest!: next_faultD Cons.IH)
qed

lemma add_fmtsD: "ldb_msg_add_fmts s vs = (lret, s') \<Longrightarrow> ldb s' = ldb s \<and> frame s s'"
proof (induction vs arbitrary: s)
  case Nil
  then show ?case by simp
next
  case (Cons v vs)
  then show ?case
    by (auto simp: ldb_msg_add_fmt_def frame_def split: prod.splits if_splits
        dest!: next_faultD Cons.IH)
qed

lemma filter_absent: "dn \<notin> fst ` set db \<Longrightarrow> filter (\<lambda>m. fst m \<noteq> dn) db = db"
  by (induction db) auto

lemma delete_entryD:
  "sysdb_delete_entry s dn b = (ret, s') \<Longrightarrow>
     frame s s' \<and>
     (if ret = EOK then ldb s' = filter (\<lambda>m. fst m \<noteq> dn) (ldb s) else ldb s' = ldb s)"
  by (auto simp: sysdb_delete_entry_def frame_def filter_absent errno_defs
      split: prod.splits if_splits dest!: next_faultD)

lemma ldb_modifyD:
  "ldb_modify s (dn, els) = (lret, s') \<Longrightarrow>
     frame s s' \<and>
     (if lret = LDB_SUCCESS
      then dn \<in> fst ` set (ldb s) \<and>
           ldb s' = map (\<lambda>m. if fst m = dn then (fst m, apply_elements els (snd m)) else m) (ldb s)
      else ldb s' = ldb s)"
  by (auto simp: ldb_modify_def frame_def errno_defs
      split: prod.splits if_splits dest!: next_faultD)

lemma ldb_addD:
  "ldb_add s (dn, els) = (lret, s') \<Longrightarrow>
     frame s s' \<and>
     (if lret = LDB_SUCCESS
      then dn \<notin> fst ` set (ldb s) \<and>
           ldb s' = ldb s @ [(dn, apply_elements els empty_message)]
      else ldb s' = ldb s)"
  by (auto simp: ldb_add_def frame_def errno_defs
      split: prod.splits if_splits dest!: next_faultD)

lemma error_to_errno_zero [simp]: "sysdb_error_to_errno lret = 0 \<longleftrightarrow> lret = 0"
  by (simp add: sysdb_error_to_errno_def errno_defs)

lemmas zero_defs = EOK_def LDB_SUCCESS_def ENOMEM_def EINVAL_def ENOENT_def EIO_def

lemma remove_aliasD:
  "sysdb_svc_remove_alias s dn alias = (ret, s') \<Longrightarrow>
     frame s s' \<and>
     (if ret = EOK
      then dn \<in> fst ` set (ldb s) \<and>
           ldb s' = map (\<lambda>m. if fst m = dn
                              then (fst m, (snd m)\<lparr>aliases := filter (\<lambda>a. a \<noteq> alias) (aliases (snd m))\<rparr>)
                              else m) (ldb s)
      else ldb s' = ldb s)"
  unfolding sysdb_svc_remove_alias_def
  by (auto simp: alloc_defs frame_def apply_elements_def zero_defs
      split: prod.splits if_splits dest!: next_faultD ldb_modifyD)

lemma set_entry_attrD:
  "sysdb_set_entry_attr s dn attrs flag = (ret, s') \<Longrightarrow>
     frame s s' \<and>
     (if ret = EOK
      then dn \<in> fst ` set (ldb s) \<and>
           ldb s' = map (\<lambda>m. if fst m = dn
                              then (fst m, apply_elements (map (\<lambda>a. (flag, a)) attrs) (snd m))
                              else m) (ldb s)
      else ldb s' = ldb s)"
  unfolding sysdb_set_entry_attr_def
  by (auto simp: alloc_defs frame_def zero_defs
      split: prod.splits if_splits dest!: next_faultD ldb_modifyD)

lemma set_timestampsD:
  "set_timestamps s dn ttl now = (ret, s') \<Longrightarrow>
     frame s s' \<and>
     (if ret = EOK
      then dn \<in> fst ` set (ldb s) \<and>
           ldb s' = map (\<lambda>m. if fst m = dn
                              then (fst m, (snd m)\<lparr>last_update := Some now,
                                     cache_expire := Some (if ttl \<noteq> 0 then now + ttl else 0)\<rparr>)
                              else m) (ldb s)
      else ldb s' = ldb s)"
  unfolding set_timestamps_def
  by (auto simp: alloc_defs frame_def zero_defs apply_elements_def
      split: prod.splits if_splits dest!: next_faultD set_entry_attrD)

lemma svc_updateD:
  "sysdb_svc_update s dn port al pr = (ret, s') \<Longrightarrow>
     frame s s' \<and>
     (if ret = EOK
      then pr \<noteq> [] \<and> (\<exists>d. dn = Some d \<and> d \<in> fst ` set (ldb s) \<and>
           ldb s' = map (\<lambda>m. if fst m = d
                              then (fst m, (snd m)\<lparr>svc_port := Some port,
                                     aliases := (if al = [] then aliases (snd m) else al),
                                     protocols := pr\<rparr>)
                              else m) (ldb s))
      else ldb s' = ldb s)"
  unfolding sysdb_svc_update_def
  by (auto simp: alloc_defs frame_def zero_defs apply_elements_def
      split: prod.splits if_splits option.splits dest!: next_faultD ldb_modifyD add_fmtsD)

lemma svc_dnD:
  "sysdb_svc_dn s dmn nm = (r, s') \<Longrightarrow>
     ldb s' = ldb s \<and> frame s s' \<and> (case r of None \<Rightarrow> True | Some dn \<Rightarrow> dn = SYSDB_TMPL_SVC nm dmn)"
  unfolding sysdb_svc_dn_def
  by (auto simp: alloc_defs frame_def split: prod.splits if_splits dest!: next_faultD)

lemma svc_add_namesD:
  "svc_add_names s pn = (r, s') \<Longrightarrow>
     ldb s' = ldb s \<and> frame s s' \<and>
     (case r of Inl e \<Rightarrow> e \<noteq> EOK | Inr dn \<Rightarrow> dn = SYSDB_TMPL_SVC pn (domain_name s))"
  unfolding svc_add_names_def
  by (auto simp: alloc_defs frame_def zero_defs
      split: prod.splits if_splits option.splits dest!: next_faultD svc_dnD)

lemma svc_add_aliasesD:
  "svc_add_aliases s al = (r, s') \<Longrightarrow> ldb s' = ldb s \<and> frame s s'"
  unfolding svc_add_aliases_def
  by (auto simp: alloc_defs frame_def
      split: prod.splits if_splits dest!: next_faultD add_stringsD)

lemma svc_add_protocolsD:
  "svc_add_protocols s pr = (r, s') \<Longrightarrow> ldb s' = ldb s \<and> frame s s'"
  unfolding svc_add_protocols_def
  by (auto simp: alloc_defs frame_def
      split: prod.splits if_splits dest!: next_faultD add_stringsD)

lemma svc_addD:
  "sysdb_svc_add s pn port al pr = (r, s') \<Longrightarrow>
     frame s s' \<and>
     (case r of
        Inl e \<Rightarrow> e \<noteq> EOK \<and> ldb s' = ldb s
      | Inr dn \<Rightarrow> dn = SYSDB_TMPL_SVC pn (domain_name s) \<and> dn \<notin> fst ` set (ldb s) \<and>
          ldb s' = ldb s @ [(dn, new_entry s pn port al pr)])"
  unfolding sysdb_svc_add_def
  by (auto simp: alloc_defs frame_def zero_defs apply_elements_def empty_message_def new_entry_def
      split: prod.splits if_splits sum.splits
      dest!: next_faultD ldb_addD svc_add_namesD svc_add_aliasesD svc_add_protocolsD)
    force+

lemma delete_port_entries_frame:
  "delete_port_entries s ms = (ret, s') \<Longrightarrow> frame s s'"
proof (induction ms arbitrary: s)
  case Nil
  then show ?case by simp
next
  case (Cons m ms)
  then show ?case
    by (auto simp: frame_def split: prod.splits if_splits dest!: delete_entryD Cons.IH)
qed

lemma port_pass_frame: "port_pass s pn port = (r, s') \<Longrightarrow> frame s s'"
  unfolding port_pass_def
  by (auto split: prod.splits if_splits sum.splits list.splits
      dest!: getservbyport_frame delete_entryD delete_port_entries_frame simp: frame_def)

lemma name_loop_frame: "name_loop s pn u ms = (r, s') \<Longrightarrow> frame s s'"
proof (induction ms arbitrary: s u)
  case Nil
  then show ?case by simp
next
  case (Cons m ms)
  then show ?case
    by (auto simp: frame_def split: prod.splits if_splits option.splits
        dest!: delete_entryD remove_aliasD Cons.IH)
qed

lemma name_pass_frame: "name_pass s pn = (r, s') \<Longrightarrow> frame s s'"
  unfolding name_pass_def
  by (auto split: prod.splits if_splits sum.splits
      dest!: getservbyname_frame name_loop_frame simp: frame_def)

lemma apply_record_frame: "apply_record s u pn port al pr = (r, s') \<Longrightarrow> frame s s'"
  unfolding apply_record_def
  by (auto split: prod.splits if_splits option.splits dest!: svc_updateD svc_addD)

lemma commitD:
  "sysdb_transaction_commit s = (ret, s') \<Longrightarrow>
     ldb s' = ldb s \<and> cancel_faults s' = cancel_faults s \<and>
     (if ret = EOK then txs s = hd (txs s) # txs s' else txs s' = txs s)"
  by (auto simp: sysdb_transaction_commit_def frame_def zero_defs
      split: prod.splits if_splits list.splits dest!: next_faultD)
    (metis list.sel(1))

lemma store_steps_frame:
  "store_steps s pn port al pr ttl now = (ret, in_tx, s') \<Longrightarrow>
     cancel_faults s' = cancel_faults s \<and>
     (if in_tx then txs s' = txs s else ret = EOK \<and> txs s = hd (txs s) # txs s')"
  unfolding store_steps_def
  by (auto simp: frame_def split: prod.splits if_splits flow.splits sum.splits
      dest!: port_pass_frame name_pass_frame apply_record_frame set_timestampsD commitD)

lemma startD:
  "sysdb_transaction_start s = (ret, s') \<Longrightarrow>
     ldb s' = ldb s \<and> cancel_faults s' = cancel_faults s \<and>
     (if ret = EOK then txs s' = ldb s # txs s else txs s' = txs s)"
  by (auto simp: sysdb_transaction_start_def frame_def zero_defs
      split: prod.splits if_splits dest!: next_faultD)

lemma cancel_restores:
  "cancel_works s \<Longrightarrow> txs s = t # ts \<Longrightarrow>
     sysdb_transaction_cancel s = (EOK, s\<lparr>ldb := t, txs := ts, cancel_faults := tl (cancel_faults s)\<rparr>)"
  by (auto simp: cancel_works_def sysdb_transaction_cancel_def split: list.splits)

lemma delete_entry_free:
  "faults s = [] \<Longrightarrow> dn \<in> fst ` set (ldb s) \<Longrightarrow>
     sysdb_delete_entry s dn b = (EOK, s\<lparr>ldb := filter (\<lambda>m. fst m \<noteq> dn) (ldb s)\<rparr>)"
  by (simp add: sysdb_delete_entry_def next_fault_free EOK_def)

lemma delete_found_entries_free:
  "faults s = [] \<Longrightarrow> distinct (map fst ms) \<Longrightarrow> set ms \<subseteq> set (ldb s) \<Longrightarrow>
     delete_found_entries s ms =
       (EOK, s\<lparr>ldb := filter (\<lambda>x. fst x \<notin> fst ` set ms) (ldb s)\<rparr>)"
proof (induction ms arbitrary: s)
  case Nil
  then show ?case by simp
next
  case (Cons m ms)
  let ?s1 = "s\<lparr>ldb := filter (\<lambda>x. fst x \<noteq> fst m) (ldb s)\<rparr>"
  have del: "sysdb_delete_entry s (fst m) False = (EOK, ?s1)"
    using Cons.prems by (intro delete_entry_free) auto
  have sub: "set ms \<subseteq> set (ldb ?s1)"
    using Cons.prems by (auto simp: image_iff)
  have "delete_found_entries ?s1 ms =
      (EOK, ?s1\<lparr>ldb := filter (\<lambda>x. fst x \<notin> fst ` set ms) (ldb ?s1)\<rparr>)"
    using Cons.prems sub by (intro Cons.IH) auto
  moreover have "filter (\<lambda>x. fst x \<notin> fst ` set ms) (ldb ?s1)
      = filter (\<lambda>x. fst x \<notin> fst ` set (m # ms)) (ldb s)"
    by (auto intro: filter_cong)
  ultimately show ?case using del by (simp add: EOK_def)
qed

lemma filter_by_dn:
  "distinct (map fst db) \<Longrightarrow>
     filter (\<lambda>x. fst x \<notin> fst ` set (filter P db)) db = filter (\<lambda>x. \<not> P x) db"
proof -
  assume d: "distinct (map fst db)"
  have *: "\<And>x. x \<in> set db \<Longrightarrow> (fst x \<notin> fst ` set (filter P db)) = (\<not> P x)"
  proof -
    fix x assume x: "x \<in> set db"
    show "(fst x \<notin> fst ` set (filter P db)) = (\<not> P x)"
    proof (cases "P x")
      case True
      with x have "x \<in> set (filter P db)" by simp
      then have "fst x \<in> fst ` set (filter P db)" by (rule imageI)
      with True show ?thesis by simp
    next
      case False
      have "fst x \<notin> fst ` set (filter P db)"
      proof
        assume "fst x \<in> fst ` set (filter P db)"
        then obtain y where y: "y \<in> set db" "P y" "fst y = fst x" by auto
        with d x have "y = x" by (meson distinct_map inj_onD)
        with y False show False by simp
      qed
      with False show ?thesis by simp
    qed
  qed
  show ?thesis by (rule filter_cong [OF refl]) (rule *)
qed

section \<open>Runs in which every collaborator works\<close>

lemma add_fmts_free: "faults s = [] \<Longrightarrow> ldb_msg_add_fmts s vs = (LDB_SUCCESS, s)"
  by (induction vs) (simp_all add: ldb_msg_add_fmt_def next_fault_free LDB_SUCCESS_def)

lemma add_strings_free: "faults s = [] \<Longrightarrow> ldb_msg_add_strings s vs = (LDB_SUCCESS, s)"
  by (induction vs) (simp_all add: ldb_msg_add_string_def next_fault_free LDB_SUCCESS_def)

lemma delete_entry_faults:
  "faults s = [] \<Longrightarrow> faults (snd (sysdb_delete_entry s dn b)) = []"
  by (simp add: sysdb_delete_entry_def next_fault_free)

lemma remove_alias_faults:
  "faults s = [] \<Longrightarrow> faults (snd (sysdb_svc_remove_alias s dn a)) = []"
  by (simp add: sysdb_svc_remove_alias_def alloc_defs next_fault_free ldb_modify_def EOK_def
      LDB_SUCCESS_def)

lemma svc_update_faults:
  "faults s = [] \<Longrightarrow> faults (snd (sysdb_svc_update s dn port al pr)) = []"
  by (simp add: sysdb_svc_update_def alloc_defs next_fault_free ldb_modify_def EOK_def
      LDB_SUCCESS_def add_fmts_free split: option.splits)

lemma svc_add_faults:
  "faults s = [] \<Longrightarrow> faults (snd (sysdb_svc_add s pn port al pr)) = []"
  by (simp add: sysdb_svc_add_def svc_add_names_def svc_add_aliases_def svc_add_protocols_def
      sysdb_svc_dn_def alloc_defs next_fault_free ldb_add_def EOK_def
      LDB_SUCCESS_def add_strings_free)

lemma set_timestamps_faults:
  "faults s = [] \<Longrightarrow> faults (snd (set_timestamps s dn ttl now)) = []"
  by (simp add: set_timestamps_def sysdb_set_entry_attr_def alloc_defs next_fault_free
      ldb_modify_def EOK_def LDB_SUCCESS_def)

lemma delete_port_entries_faults:
  "faults s = [] \<Longrightarrow> faults (snd (delete_port_entries s ms)) = []"
proof (induction ms arbitrary: s)
  case Nil
  then show ?case by simp
next
  case (Cons m ms)
  from Cons.prems have "faults (snd (sysdb_delete_entry s (fst m) True)) = []"
    by (rule delete_entry_faults)
  with Cons.IH show ?case
    by (cases "sysdb_delete_entry s (fst m) True") simp
qed

lemma getservbyport_faults:
  "faults s = [] \<Longrightarrow> faults (snd (sysdb_getservbyport s port proto)) = []"
proof (cases "0 < port")
  case True
  then show "faults s = [] \<Longrightarrow> ?thesis"
    by (simp add: getservbyport_free Let_def)
next
  case False
  then show "faults s = [] \<Longrightarrow> ?thesis"
    by (simp add: sysdb_getservbyport_def)
qed

lemma getservbyname_faults:
  "faults s = [] \<Longrightarrow> faults (snd (sysdb_getservbyname s nm proto)) = []"
  by (simp add: getservbyname_free Let_def)

lemma port_pass_faults:
  assumes f: "faults s = []"
  shows "faults (snd (port_pass s pn port)) = []"
proof -
  obtain r1 s1 where g: "sysdb_getservbyport s port None = (r1, s1)"
    by (cases "sysdb_getservbyport s port None")
  with getservbyport_faults [OF f, of port None] have s1: "faults s1 = []" by simp
  show ?thesis
    using g s1 delete_port_entries_faults [OF s1] delete_entry_faults [OF s1]
    by (auto simp: port_pass_def split_beta simp del: delete_port_entries.simps
        split: sum.splits list.splits)
qed

lemma name_loop_faults:
  "faults s = [] \<Longrightarrow> faults (snd (name_loop s pn u ms)) = []"
proof (induction ms arbitrary: s u)
  case Nil
  then show ?case by simp
next
  case (Cons m ms)
  note f = Cons.prems
  have d1: "\<And>dn. faults (snd (sysdb_delete_entry s dn True)) = []"
    using f by (rule delete_entry_faults)
  have d2: "\<And>dn dn'. faults (snd (sysdb_delete_entry (snd (sysdb_delete_entry s dn True)) dn' True)) = []"
    using d1 by (rule delete_entry_faults)
  have r: "faults (snd (sysdb_svc_remove_alias s (fst m) pn)) = []"
    using f by (rule remove_alias_faults)
  show ?case
    using f d1 d2 r Cons.IH
    by (auto split: option.splits prod.splits simp: split_beta)
qed

lemma name_invD:
  assumes "name_inv pn db u ms"
  shows "distinct (map fst db)" and "distinct (map fst ms)"
    and "\<And>x. x \<in> set db \<Longrightarrow> filter_match (By_name None pn) (snd x) \<Longrightarrow>
           x \<in> set ms \<or> u = Some (fst x)"
    and "\<And>x. x \<in> set db \<Longrightarrow> u = Some (fst x) \<Longrightarrow> name (snd x) = Some pn"
    and "\<And>y x. y \<in> set ms \<Longrightarrow> x \<in> set db \<Longrightarrow> fst x = fst y \<Longrightarrow> x = y"
  using assms unfolding name_inv_def by blast+

lemma name_invI:
  assumes "distinct (map fst db)" and "distinct (map fst ms)"
    and "\<And>x. x \<in> set db \<Longrightarrow> filter_match (By_name None pn) (snd x) \<Longrightarrow>
           x \<in> set ms \<or> u = Some (fst x)"
    and "\<And>x. x \<in> set db \<Longrightarrow> u = Some (fst x) \<Longrightarrow> name (snd x) = Some pn"
    and "\<And>y x. y \<in> set ms \<Longrightarrow> x \<in> set db \<Longrightarrow> fst x = fst y \<Longrightarrow> x = y"
  shows "name_inv pn db u ms"
  using assms unfolding name_inv_def by blast

lemma inv_delete_head:
  assumes inv: "name_inv pn db u (m # ms)"
  shows "name_inv pn (filter (\<lambda>x. fst x \<noteq> fst m) db) u ms"
proof (rule name_invI)
  note D = name_invD [OF inv]
  show "distinct (map fst (filter (\<lambda>x. fst x \<noteq> fst m) db))"
    using D(1) by (rule distinct_map_filter)
  show "distinct (map fst ms)" using D(2) by simp
  show "x \<in> set ms \<or> u = Some (fst x)"
    if "x \<in> set (filter (\<lambda>x. fst x \<noteq> fst m) db)" "filter_match (By_name None pn) (snd x)" for x
  proof -
    from that have x: "x \<in> set db" "fst x \<noteq> fst m" by simp_all
    from D(3) [OF x(1) that(2)] x(2) show ?thesis by auto
  qed
  show "name (snd x) = Some pn"
    if "x \<in> set (filter (\<lambda>x. fst x \<noteq> fst m) db)" "u = Some (fst x)" for x
    using that D(4) [of x] by simp
  show "x = y"
    if "y \<in> set ms" "x \<in> set (filter (\<lambda>x. fst x \<noteq> fst m) db)" "fst x = fst y" for y x
    using that D(5) [of y x] by simp
qed

lemma inv_delete_target:
  assumes inv: "name_inv pn db (Some ud) ms"
  shows "name_inv pn (filter (\<lambda>x. fst x \<noteq> ud) db) None ms"
proof (rule name_invI)
  note D = name_invD [OF inv]
  show "distinct (map fst (filter (\<lambda>x. fst x \<noteq> ud) db))"
    using D(1) by (rule distinct_map_filter)
  show "distinct (map fst ms)" using D(2) .
  show "x \<in> set ms \<or> None = Some (fst x)"
    if "x \<in> set (filter (\<lambda>x. fst x \<noteq> ud) db)" "filter_match (By_name None pn) (snd x)" for x
  proof -
    from that have x: "x \<in> set db" "fst x \<noteq> ud" by simp_all
    from D(3) [OF x(1) that(2)] x(2) show ?thesis by auto
  qed
  show "name (snd x) = Some pn"
    if "x \<in> set (filter (\<lambda>x. fst x \<noteq> ud) db)" "None = Some (fst x)" for x
    using that by simp
  show "x = y"
    if "y \<in> set ms" "x \<in> set (filter (\<lambda>x. fst x \<noteq> ud) db)" "fst x = fst y" for y x
    using that D(5) [of y x] by simp
qed

lemma inv_target:
  assumes inv: "name_inv pn db None (m # ms)" and nm: "name (snd m) = Some pn"
  shows "name_inv pn db (Some (fst m)) ms"
proof (rule name_invI)
  note D = name_invD [OF inv]
  show "distinct (map fst db)" using D(1) .
  show "distinct (map fst ms)" using D(2) by simp
  show "x \<in> set ms \<or> Some (fst m) = Some (fst x)"
    if "x \<in> set db" "filter_match (By_name None pn) (snd x)" for x
    using D(3) [OF that] by auto
  show "name (snd x) = Some pn" if "x \<in> set db" "Some (fst m) = Some (fst x)" for x
  proof -
    from that D(5) [of m x] have "x = m" by simp
    with nm show ?thesis by simp
  qed
  show "x = y" if "y \<in> set ms" "x \<in> set db" "fst x = fst y" for y x
    using that D(5) [of y x] by simp
qed

lemma map_fst_modify:
  "map fst (map (\<lambda>x. if fst x = d then (fst x, f (snd x)) else x) db) = map fst db"
  by (induction db) auto

lemma inv_alias:
  assumes inv: "name_inv pn db u (m # ms)" and nm: "name (snd m) \<noteq> Some pn"
  shows "name_inv pn
     (map (\<lambda>x. if fst x = fst m
                then (fst x, (snd x)\<lparr>aliases := filter (\<lambda>a. a \<noteq> pn) (aliases (snd x))\<rparr>)
                else x) db) u ms"
proof -
  let ?g = "\<lambda>x. if fst x = fst m
                then (fst x, (snd x)\<lparr>aliases := filter (\<lambda>a. a \<noteq> pn) (aliases (snd x))\<rparr>)
                else x"
  note d = name_invD(1) [OF inv] and dm = name_invD(2) [OF inv] and i2 = name_invD(3) [OF inv]
    and i3 = name_invD(4) [OF inv] and i4 = name_invD(5) [OF inv]
  have at_m: "\<And>x. x \<in> set db \<Longrightarrow> fst x = fst m \<Longrightarrow> x = m"
    using i4 [of m] by simp
  have fst_g: "\<And>x. fst (?g x) = fst x" by simp
  have name_g: "\<And>x. name (snd (?g x)) = name (snd x)" by simp
  have c1: "distinct (map fst (map ?g db))"
  proof -
    have "map fst (map ?g db) = map fst db" by (induction db) auto
    with d show ?thesis by (simp only:)
  qed
  have c2: "distinct (map fst ms)" using dm by simp
  have pre: "\<And>y. y \<in> set (map ?g db) \<Longrightarrow> \<exists>x \<in> set db. y = ?g x"
    by (simp only: set_map image_iff)
  have c3: "\<forall>y \<in> set (map ?g db). filter_match (By_name None pn) (snd y) \<longrightarrow>
      y \<in> set ms \<or> u = Some (fst y)"
  proof (intro ballI impI)
    fix y assume yin: "y \<in> set (map ?g db)" and match: "filter_match (By_name None pn) (snd y)"
    from pre [OF yin] obtain x where x: "x \<in> set db" and y: "y = ?g x" by (rule bexE)
    show "y \<in> set ms \<or> u = Some (fst y)"
    proof (cases "fst x = fst m")
      case True
      with at_m [OF x] have "x = m" by simp
      with y match nm show ?thesis by (simp add: proto_match_def)
    next
      case False
      with y have yx: "y = x" by simp
      from i2 [OF x] match yx have "x \<in> set (m # ms) \<or> u = Some (fst x)" by simp
      with False yx show ?thesis by auto
    qed
  qed
  have c4: "\<forall>y \<in> set (map ?g db). u = Some (fst y) \<longrightarrow> name (snd y) = Some pn"
  proof (intro ballI impI)
    fix y assume yin: "y \<in> set (map ?g db)" and u: "u = Some (fst y)"
    from pre [OF yin] obtain x where x: "x \<in> set db" and y: "y = ?g x" by (rule bexE)
    from i3 [OF x] u y show "name (snd y) = Some pn"
      by (simp split: if_splits)
  qed
  have c5: "\<forall>z \<in> set ms. \<forall>y \<in> set (map ?g db). fst y = fst z \<longrightarrow> y = z"
  proof (intro ballI impI)
    fix z y assume z: "z \<in> set ms" and yin: "y \<in> set (map ?g db)" and eq: "fst y = fst z"
    from pre [OF yin] obtain x where x: "x \<in> set db" and y: "y = ?g x" by (rule bexE)
    from dm z have "fst z \<noteq> fst m" by (auto simp: image_iff)
    with eq y have yx: "y = x" by (auto split: if_splits)
    with i4 [of z x] z x eq show "y = z" by simp
  qed
  from c1 c2 c3 c4 c5 show ?thesis by (intro name_invI) blast+
qed

lemma name_loop_inv:
  "name_inv pn (ldb s) u ms \<Longrightarrow> name_loop s pn u ms = (Continue u', s') \<Longrightarrow>
     name_inv pn (ldb s') u' []"
proof (induction ms arbitrary: s u)
  case Nil
  then show ?case by simp
next
  case (Cons m ms)
  note inv = Cons.prems(1) and run = Cons.prems(2)
  show ?case
  proof (cases "name (snd m)")
    case None
    obtain r1 s1 where del: "sysdb_delete_entry s (fst m) True = (r1, s1)"
      by (cases "sysdb_delete_entry s (fst m) True")
    with run None have r1: "r1 = EOK" and rest: "name_loop s1 pn u ms = (Continue u', s')"
      by (auto split: if_splits)
    from delete_entryD [OF del] r1 have "ldb s1 = filter (\<lambda>x. fst x \<noteq> fst m) (ldb s)" by simp
    with inv_delete_head [OF inv] have "name_inv pn (ldb s1) u ms" by simp
    from Cons.IH [OF this rest] show ?thesis .
  next
    case (Some n)
    show ?thesis
    proof (cases "n = pn")
      case False
      obtain r1 s1 where rem: "sysdb_svc_remove_alias s (fst m) pn = (r1, s1)"
        by (cases "sysdb_svc_remove_alias s (fst m) pn")
      with run Some False have r1: "r1 = EOK" and rest: "name_loop s1 pn u ms = (Continue u', s')"
        by (auto split: if_splits)
      from Some False have "name (snd m) \<noteq> Some pn" by simp
      from inv_alias [OF inv this] remove_aliasD [OF rem] r1
      have "name_inv pn (ldb s1) u ms" by simp
      from Cons.IH [OF this rest] show ?thesis .
    next
      case True
      show ?thesis
      proof (cases u)
        case None
        with run Some True have rest: "name_loop s pn (Some (fst m)) ms = (Continue u', s')"
          by simp
        from inv None Some True have "name_inv pn (ldb s) (Some (fst m)) ms"
          by (auto intro: inv_target)
        from Cons.IH [OF this rest] show ?thesis .
      next
        case (Some ud)
        obtain r1 s1 where del1: "sysdb_delete_entry s ud True = (r1, s1)"
          by (cases "sysdb_delete_entry s ud True")
        obtain r2 s2 where del2: "sysdb_delete_entry s1 (fst m) True = (r2, s2)"
          by (cases "sysdb_delete_entry s1 (fst m) True")
        from run \<open>name (snd m) = Some n\<close> True Some del1 del2
        have r: "r1 = EOK" "r2 = EOK" and rest: "name_loop s2 pn None ms = (Continue u', s')"
          by (auto split: if_splits)
        from delete_entryD [OF del1] r have 1: "ldb s1 = filter (\<lambda>x. fst x \<noteq> ud) (ldb s)"
          by simp
        from delete_entryD [OF del2] r have 2: "ldb s2 = filter (\<lambda>x. fst x \<noteq> fst m) (ldb s1)"
          by simp
        from inv Some have "name_inv pn (ldb s) (Some ud) (m # ms)" by simp
        from inv_delete_head [OF inv_delete_target [OF this]] 1 2
        have "name_inv pn (ldb s2) None ms" by simp
        from Cons.IH [OF this rest] show ?thesis .
      qed
    qed
  qed
qed

lemma filter_unmodified:
  "d \<notin> fst ` set db \<Longrightarrow> (\<And>x. x \<in> set db \<Longrightarrow> V x \<Longrightarrow> fst x = d) \<Longrightarrow>
     filter V (map (\<lambda>x. if fst x = d then (fst x, f (snd x)) else x) db) = []"
  by (induction db) auto

lemma filter_after_modify:
  assumes "distinct (map fst db)" and "d \<in> fst ` set db"
    and "\<And>x. x \<in> set db \<Longrightarrow> V x \<Longrightarrow> fst x = d"
    and "\<And>e. (d, e) \<in> set db \<Longrightarrow> V (d, f e)"
  shows "\<exists>e. (d, e) \<in> set db \<and>
     filter V (map (\<lambda>x. if fst x = d then (fst x, f (snd x)) else x) db) = [(d, f e)]"
  using assms
proof (induction db)
  case Nil
  then show ?case by simp
next
  case (Cons x xs)
  show ?case
  proof (cases "fst x = d")
    case True
    with Cons.prems(1) have notin: "d \<notin> fst ` set xs" by auto
    have "filter V (map (\<lambda>x. if fst x = d then (fst x, f (snd x)) else x) xs) = []"
      using notin Cons.prems(3) by (intro filter_unmodified) auto
    moreover have "(d, snd x) \<in> set (x # xs)" using True by (cases x) auto
    moreover from this have "V (d, f (snd x))" by (rule Cons.prems(4))
    ultimately show ?thesis using True by (cases x) auto
  next
    case False
    with Cons.prems(2) have din: "d \<in> fst ` set xs" by auto
    from Cons.prems(1) have dist: "distinct (map fst xs)" by simp
    from Cons.IH [OF dist din] Cons.prems(3,4)
    obtain e where e: "(d, e) \<in> set xs"
      "filter V (map (\<lambda>x. if fst x = d then (fst x, f (snd x)) else x) xs) = [(d, f e)]"
      by auto
    moreover have "\<not> V x" using False Cons.prems(3) [of x] by auto
    ultimately show ?thesis using False by auto
  qed
qed

lemma name_inv_init:
  assumes "distinct (map fst db)"
  shows "name_inv pn db None (filter (\<lambda>m. filter_match (By_name None pn) (snd m)) db)"
proof (rule name_invI)
  show "distinct (map fst db)" by fact
  show "distinct (map fst (filter (\<lambda>m. filter_match (By_name None pn) (snd m)) db))"
    using assms by (rule distinct_map_filter)
  show "x \<in> set (filter (\<lambda>m. filter_match (By_name None pn) (snd m)) db) \<or> None = Some (fst x)"
    if "x \<in> set db" "filter_match (By_name None pn) (snd x)" for x
    using that by simp
  show "name (snd x) = Some pn" if "x \<in> set db" "None = Some (fst x)" for x
    using that by simp
  show "x = y"
    if "y \<in> set (filter (\<lambda>m. filter_match (By_name None pn) (snd m)) db)" "x \<in> set db"
      "fst x = fst y" for y x
  proof -
    from that have "y \<in> set db" by simp
    with assms that show ?thesis by (meson distinct_map inj_onD)
  qed
qed

lemma name_pass_inv:
  assumes free: "faults s = []" and dist: "distinct (map fst (ldb s))"
    and run: "name_pass s pn = (Continue u, s')"
  shows "name_inv pn (ldb s') u []"
proof (cases "filter (\<lambda>m. filter_match (By_name None pn) (snd m)) (ldb s) = []")
  case True
  with run free have "u = None" "s' = s"
    by (simp_all add: name_pass_def getservbyname_free errno_defs)
  with name_inv_init [OF dist, of pn] True show ?thesis by simp
next
  case False
  with run free
  have "name_loop s pn None (filter (\<lambda>m. filter_match (By_name None pn) (snd m)) (ldb s))
      = (Continue u, s')"
    by (simp add: name_pass_def getservbyname_free)
  from name_loop_inv [OF name_inv_init [OF dist] this] show ?thesis .
qed

lemma delete_port_entries_distinct:
  "distinct (map fst (ldb s)) \<Longrightarrow> distinct (map fst (ldb (snd (delete_port_entries s ms))))"
proof (induction ms arbitrary: s)
  case Nil
  then show ?case by simp
next
  case (Cons m ms)
  obtain r1 s1 where del: "sysdb_delete_entry s (fst m) True = (r1, s1)"
    by (cases "sysdb_delete_entry s (fst m) True")
  from delete_entryD [OF del] Cons.prems have "distinct (map fst (ldb s1))"
    by (auto simp: distinct_map_filter split: if_splits)
  from Cons.IH [OF this] del Cons.prems show ?case
    using delete_entryD [OF del] by (auto split: if_splits)
qed

lemma port_pass_distinct:
  assumes "distinct (map fst (ldb s))"
  shows "distinct (map fst (ldb (snd (port_pass s pn port))))"
proof -
  obtain r1 s1 where g: "sysdb_getservbyport s port None = (r1, s1)"
    by (cases "sysdb_getservbyport s port None")
  from getservbyport_frame [OF g] assms have d1: "distinct (map fst (ldb s1))" by simp
  have del: "\<And>dn. distinct (map fst (ldb (snd (sysdb_delete_entry s1 dn True))))"
  proof -
    fix dn
    obtain r2 s2 where d: "sysdb_delete_entry s1 dn True = (r2, s2)"
      by (cases "sysdb_delete_entry s1 dn True")
    from delete_entryD [OF d] d1 have "distinct (map fst (ldb s2))"
      by (auto simp: distinct_map_filter split: if_splits)
    with d show "distinct (map fst (ldb (snd (sysdb_delete_entry s1 dn True))))" by simp
  qed
  show ?thesis
    using g d1 del delete_port_entries_distinct [OF d1]
    by (auto simp: port_pass_def split_beta simp del: delete_port_entries.simps
        split: sum.splits list.splits)
qed

lemma port_pass_Goto: "port_pass s pn port = (Goto_done r, s') \<Longrightarrow> r \<noteq> EOK"
  by (auto simp: port_pass_def split: prod.splits sum.splits list.splits if_splits)

lemma name_loop_Goto: "name_loop s pn u ms = (Goto_done r, s') \<Longrightarrow> r \<noteq> EOK"
proof (induction ms arbitrary: s u)
  case Nil
  then show ?case by simp
next
  case (Cons m ms)
  then show ?case
    by (auto split: option.splits prod.splits if_splits)
qed

lemma name_pass_Goto: "name_pass s pn = (Goto_done r, s') \<Longrightarrow> r \<noteq> EOK"
  by (auto simp: name_pass_def split: prod.splits sum.splits if_splits dest: name_loop_Goto)

lemma apply_record_Inl: "apply_record s u pn port al pr = (Inl r, s') \<Longrightarrow> r \<noteq> EOK"
  by (auto simp: apply_record_def split: option.splits prod.splits if_splits dest!: svc_addD)

lemma store_steps_EOK:
  assumes "store_steps s pn port al pr ttl now = (EOK, in_tx, s')"
  obtains s2 u s3 dn s4 s5 where
    "port_pass s pn port = (Continue (), s2)"
    "name_pass s2 pn = (Continue u, s3)"
    "apply_record s3 u pn port al pr = (Inr dn, s4)"
    "set_timestamps s4 dn ttl now = (EOK, s5)"
    "sysdb_transaction_commit s5 = (EOK, s')" "\<not> in_tx"
proof -
  obtain f1 s2 where p: "port_pass s pn port = (f1, s2)" by (cases "port_pass s pn port")
  show ?thesis
  proof (cases f1)
    case (Goto_done r)
    with p port_pass_Goto [of s pn port r s2] assms show ?thesis
      by (simp add: store_steps_def)
  next
    case (Continue x)
    obtain f2 s3 where n: "name_pass s2 pn = (f2, s3)" by (cases "name_pass s2 pn")
    show ?thesis
    proof (cases f2)
      case (Goto_done r)
      with p Continue n name_pass_Goto [of s2 pn r s3] assms show ?thesis
        by (simp add: store_steps_def)
    next
      case c2: (Continue u)
      obtain f3 s4 where a: "apply_record s3 u pn port al pr = (f3, s4)"
        by (cases "apply_record s3 u pn port al pr")
      show ?thesis
      proof (cases f3)
        case (Inl r)
        with p Continue n c2 a apply_record_Inl [of s3 u pn port al pr r s4] assms show ?thesis
          by (simp add: store_steps_def)
      next
        case (Inr dn)
        obtain r4 s5 where t: "set_timestamps s4 dn ttl now = (r4, s5)"
          by (cases "set_timestamps s4 dn ttl now")
        obtain r5 s6 where c: "sysdb_transaction_commit s5 = (r5, s6)"
          by (cases "sysdb_transaction_commit s5")
        from p Continue n c2 a Inr t c assms have "r4 = EOK" "r5 = EOK" "s6 = s'" "\<not> in_tx"
          by (auto simp: store_steps_def split: if_splits)
        with p Continue n c2 a Inr t c that show ?thesis by simp
      qed
    qed
  qed
qed

lemma name_pass_faults:
  assumes f: "faults s = []"
  shows "faults (snd (name_pass s pn)) = []"
  using f name_loop_faults [OF f]
  by (simp add: name_pass_def getservbyname_free Let_def)

lemma apply_record_faults:
  assumes f: "faults s = []"
  shows "faults (snd (apply_record s u pn port al pr)) = []"
proof (cases u)
  case None
  with svc_add_faults [OF f, of pn port al pr] show ?thesis
    by (simp add: apply_record_def)
next
  case (Some d)
  with svc_update_faults [OF f, of "Some d" port al pr] show ?thesis
    by (simp add: apply_record_def split_beta)
qed

lemma apply_record_result:
  assumes inv: "name_inv pn (ldb s) u []" and pr: "pr \<noteq> []"
    and run: "apply_record s u pn port al pr = (Inr dn, s')"
  shows "distinct (map fst (ldb s')) \<and>
     (\<exists>e. filter (\<lambda>m. filter_match (By_name None pn) (snd m)) (ldb s') = [(dn, e)] \<and>
          name e = Some pn \<and> svc_port e = Some port \<and> protocols e = pr \<and>
          (al = [] \<or> aliases e = al))"
proof (cases u)
  case None
  with run have add: "sysdb_svc_add s pn port al pr = (Inr dn, s')"
    by (simp add: apply_record_def)
  from svc_addD [OF add] have notin: "dn \<notin> fst ` set (ldb s)"
    and db: "ldb s' = ldb s @ [(dn, new_entry s pn port al pr)]" by auto
  from name_invD(3) [OF inv] None
  have "filter (\<lambda>m. filter_match (By_name None pn) (snd m)) (ldb s) = []"
    by (auto simp: filter_empty_conv)
  with db pr have "filter (\<lambda>m. filter_match (By_name None pn) (snd m)) (ldb s')
      = [(dn, new_entry s pn port al pr)]"
    by (simp add: new_entry_def proto_match_def)
  moreover have "distinct (map fst (ldb s'))"
    using name_invD(1) [OF inv] notin db by simp
  ultimately show ?thesis by (simp add: new_entry_def)
next
  case (Some d)
  obtain r1 s1 where upd: "sysdb_svc_update s (Some d) port al pr = (r1, s1)"
    by (cases "sysdb_svc_update s (Some d) port al pr")
  with run Some have r1: "r1 = EOK" "dn = d" "s1 = s'"
    by (auto simp: apply_record_def split: if_splits)
  let ?f = "\<lambda>e. e\<lparr>svc_port := Some port, aliases := (if al = [] then aliases e else al),
      protocols := pr\<rparr>"
  from svc_updateD [OF upd] r1 have din: "d \<in> fst ` set (ldb s)"
    and db: "ldb s' = map (\<lambda>m. if fst m = d then (fst m, ?f (snd m)) else m) (ldb s)"
    by auto
  have vis: "\<And>x. x \<in> set (ldb s) \<Longrightarrow> filter_match (By_name None pn) (snd x) \<Longrightarrow> fst x = d"
    using name_invD(3) [OF inv] Some by auto
  have at: "\<And>e. (d, e) \<in> set (ldb s) \<Longrightarrow> filter_match (By_name None pn) (snd (d, ?f e))"
    using name_invD(4) [OF inv] Some pr by (auto simp: proto_match_def)
  from filter_after_modify [OF name_invD(1) [OF inv] din,
      of "\<lambda>m. filter_match (By_name None pn) (snd m)" ?f] vis at
  obtain e where e: "(d, e) \<in> set (ldb s)"
    "filter (\<lambda>m. filter_match (By_name None pn) (snd m))
       (map (\<lambda>m. if fst m = d then (fst m, ?f (snd m)) else m) (ldb s)) = [(d, ?f e)]"
    by auto
  from name_invD(4) [OF inv e(1)] Some have "name e = Some pn" by simp
  moreover have "distinct (map fst (ldb s'))"
  proof -
    have "map fst (ldb s') = map fst (ldb s)" unfolding db by (rule map_fst_modify)
    with name_invD(1) [OF inv] show ?thesis by (simp only:)
  qed
  ultimately show ?thesis using e db r1 by auto
qed

lemma timestamps_result:
  assumes dist: "distinct (map fst (ldb s))"
    and vis: "filter (\<lambda>m. filter_match (By_name None pn) (snd m)) (ldb s) = [(dn, e)]"
    and run: "set_timestamps s dn ttl now = (EOK, s')"
  shows "filter (\<lambda>m. filter_match (By_name None pn) (snd m)) (ldb s')
     = [(dn, e\<lparr>last_update := Some now,
               cache_expire := Some (if ttl \<noteq> 0 then now + ttl else 0)\<rparr>)]"
proof -
  let ?V = "\<lambda>m. filter_match (By_name None pn) (snd m)"
  let ?f = "\<lambda>e. e\<lparr>last_update := Some now,
      cache_expire := Some (if ttl \<noteq> 0 then now + ttl else 0)\<rparr>"
  from set_timestampsD [OF run] have din: "dn \<in> fst ` set (ldb s)"
    and db: "ldb s' = map (\<lambda>m. if fst m = dn then (fst m, ?f (snd m)) else m) (ldb s)"
    by simp_all
  have mem: "\<And>x. x \<in> set (ldb s) \<Longrightarrow> ?V x \<Longrightarrow> x = (dn, e)"
  proof -
    fix x assume "x \<in> set (ldb s)" "?V x"
    then have "x \<in> set (filter ?V (ldb s))" by simp
    then show "x = (dn, e)" unfolding vis by simp
  qed
  have ein: "(dn, e) \<in> set (ldb s)" and eV: "?V (dn, e)"
  proof -
    have "(dn, e) \<in> set (filter ?V (ldb s))" unfolding vis by simp
    then show "(dn, e) \<in> set (ldb s)" and "?V (dn, e)" by simp_all
  qed
  have uniq: "\<And>e'. (dn, e') \<in> set (ldb s) \<Longrightarrow> e' = e"
  proof -
    fix e' assume "(dn, e') \<in> set (ldb s)"
    from eq_key_imp_eq_value [OF dist this ein] show "e' = e" .
  qed
  have 3: "\<And>x. x \<in> set (ldb s) \<Longrightarrow> ?V x \<Longrightarrow> fst x = dn"
    using mem by auto
  have 4: "\<And>e'. (dn, e') \<in> set (ldb s) \<Longrightarrow> ?V (dn, ?f e')"
    using uniq eV by (auto simp: proto_match_def)
  from filter_after_modify [OF dist din, of ?V ?f] 3 4
  obtain e' where "(dn, e') \<in> set (ldb s)"
    "filter ?V (map (\<lambda>m. if fst m = dn then (fst m, ?f (snd m)) else m) (ldb s)) = [(dn, ?f e')]"
    by auto
  with uniq db show ?thesis by auto
qed

lemma commit_faults:
  "faults s = [] \<Longrightarrow> faults (snd (sysdb_transaction_commit s)) = []"
  by (simp add: sysdb_transaction_commit_def next_fault_free EOK_def split: list.splits)

lemma store_service_result:
  assumes free: "faults s = []" and dist: "distinct (map fst (ldb s))" and pr: "pr \<noteq> []"
    and call: "sysdb_store_service s pn port al pr ttl now = (EOK, s')"
  obtains dn e where
    "filter (\<lambda>m. filter_match (By_name None pn) (snd m)) (ldb s') = [(dn, e)]"
    "name e = Some pn" "svc_port e = Some port" "protocols e = pr" "al = [] \<or> aliases e = al"
    "last_update e = Some now"
    "cache_expire e = Some (if ttl \<noteq> 0 then now + ttl else 0)"
    "faults s' = []" "txs s' = txs s"
proof -
  let ?s1 = "s\<lparr>txs := ldb s # txs s\<rparr>"
  have f1: "faults ?s1 = []" and d1: "distinct (map fst (ldb ?s1))"
    using free dist by simp_all
  obtain r2 in_tx s2 where steps: "store_steps ?s1 pn port al pr ttl now = (r2, in_tx, s2)"
    by (cases "store_steps ?s1 pn port al pr ttl now")
  with call free have fin: "store_done r2 in_tx s2 = (EOK, s')"
    by (simp add: sysdb_store_service_def talloc_new_def next_fault_free
        sysdb_transaction_start_def EOK_def)
  then have r2: "r2 = EOK"
    by (auto simp: store_done_def split: if_splits prod.splits)
  from steps r2 obtain sa u sb dn sc sd where
    p: "port_pass ?s1 pn port = (Continue (), sa)" and
    n: "name_pass sa pn = (Continue u, sb)" and
    a: "apply_record sb u pn port al pr = (Inr dn, sc)" and
    t: "set_timestamps sc dn ttl now = (EOK, sd)" and
    c: "sysdb_transaction_commit sd = (EOK, s2)" and
    in_tx: "\<not> in_tx"
    by (auto elim: store_steps_EOK)
  from fin in_tx have s': "s' = s2" by (simp add: store_done_def)
  from port_pass_faults [OF f1, of pn port] p have fa: "faults sa = []" by simp
  from port_pass_distinct [OF d1, of pn port] p have da: "distinct (map fst (ldb sa))" by simp
  from name_pass_faults [OF fa, of pn] n have fb: "faults sb = []" by simp
  from apply_record_faults [OF fb, of u pn port al pr] a have fc: "faults sc = []" by simp
  from set_timestamps_faults [OF fc, of dn ttl now] t have fd: "faults sd = []" by simp
  from commit_faults [OF fd] c have f2: "faults s2 = []" by simp
  have txs: "txs sd = ldb s # txs s"
    using port_pass_frame [OF p] name_pass_frame [OF n] apply_record_frame [OF a]
      set_timestampsD [OF t]
    by (simp add: frame_def)
  from commitD [OF c] txs have t2: "txs s2 = txs s" and l2: "ldb s2 = ldb sd" by simp_all
  from apply_record_result [OF name_pass_inv [OF fa da n] pr a]
  obtain e where dc: "distinct (map fst (ldb sc))"
    and e: "filter (\<lambda>m. filter_match (By_name None pn) (snd m)) (ldb sc) = [(dn, e)]"
      "name e = Some pn" "svc_port e = Some port" "protocols e = pr" "al = [] \<or> aliases e = al"
    by blast
  from timestamps_result [OF dc e(1) t] l2
  have "filter (\<lambda>m. filter_match (By_name None pn) (snd m)) (ldb s2)
     = [(dn, e\<lparr>last_update := Some now,
               cache_expire := Some (if ttl \<noteq> 0 then now + ttl else 0)\<rparr>)]"
    by simp
  with e f2 t2 s' that [of dn "e\<lparr>last_update := Some now,
               cache_expire := Some (if ttl \<noteq> 0 then now + ttl else 0)\<rparr>"]
  show ?thesis by simp
qed

section \<open>What a successful call does to an entry with another name\<close>

text \<open>
  The lemmas of this section follow one entry \<open>(d, e)\<close> of the store through the steps
  of \<open>sysdb_store_service\<close>: the port pass leaves it alone when its port is not the
  one stored; the loop of the name pass, when the entry has a name other than the one
  stored, removes the stored name from its aliases if the entry is among those found
  and leaves it alone otherwise; the update or add, and the time stamps, are applied to
  another identifier.
\<close>

lemma delete_port_entries_keeps:
  "delete_port_entries s ms = (r, s') \<Longrightarrow> x \<in> set (ldb s) \<Longrightarrow> fst x \<notin> fst ` set ms \<Longrightarrow>
     x \<in> set (ldb s')"
proof (induction ms arbitrary: s)
  case Nil
  then show ?case by simp
next
  case (Cons m ms)
  obtain r1 s1 where del: "sysdb_delete_entry s (fst m) True = (r1, s1)"
    by (cases "sysdb_delete_entry s (fst m) True")
  from delete_entryD [OF del] Cons.prems(2,3) have x1: "x \<in> set (ldb s1)"
    by (auto split: if_splits)
  show ?case
  proof (cases "r1 = EOK")
    case True
    with Cons.prems(1) del have "delete_port_entries s1 ms = (r, s')" by simp
    from Cons.IH [OF this x1] Cons.prems(3) show ?thesis by simp
  next
    case False
    with Cons.prems(1) del have "s' = s1" by simp
    with x1 show ?thesis by simp
  qed
qed

lemma port_pass_keeps:
  assumes dist: "distinct (map fst (ldb s))" and x: "(d, e) \<in> set (ldb s)"
    and p: "svc_port e \<noteq> Some port" and run: "port_pass s pn port = (r, s')"
  shows "(d, e) \<in> set (ldb s')"
proof -
  obtain r1 s1 where g: "sysdb_getservbyport s port None = (r1, s1)"
    by (cases "sysdb_getservbyport s port None")
  from getservbyport_frame [OF g] have l1: "ldb s1 = ldb s" by simp
  show ?thesis
  proof (cases r1)
    case (Inl ret)
    with run g have "s' = s1" by (auto simp: port_pass_def split: if_splits)
    with l1 x show ?thesis by simp
  next
    case (Inr res)
    with getservbyport_Inr [of s port None res s1] g
    have res: "res = filter (\<lambda>m. filter_match (By_port None port) (snd m)) (ldb s)" by simp
    have notin: "d \<notin> fst ` set res"
    proof
      assume "d \<in> fst ` set res"
      then obtain y where y: "y \<in> set res" "fst y = d" by (auto simp only: image_iff)
      with res have yin: "y \<in> set (ldb s)" and yp: "svc_port (snd y) = Some port" by simp_all
      from y(2) yin have "(d, snd y) \<in> set (ldb s)" by (cases y) simp
      from eq_key_imp_eq_value [OF dist this x] have "snd y = e" .
      with yp p show False by simp
    qed
    have del: "(d, e) \<in> set (ldb (snd (sysdb_delete_entry s1 dn True)))" if "dn \<noteq> d" for dn
    proof -
      obtain r2 s2 where d2: "sysdb_delete_entry s1 dn True = (r2, s2)"
        by (cases "sysdb_delete_entry s1 dn True")
      from delete_entryD [OF d2] l1 x that have "(d, e) \<in> set (ldb s2)"
        by (auto split: if_splits)
      with d2 show ?thesis by simp
    qed
    have loop: "(d, e) \<in> set (ldb (snd (delete_port_entries s1 res)))"
    proof -
      obtain r2 s2 where d2: "delete_port_entries s1 res = (r2, s2)"
        by (cases "delete_port_entries s1 res")
      from delete_port_entries_keeps [OF d2, of "(d, e)"] l1 x notin
      have "(d, e) \<in> set (ldb s2)" by simp
      with d2 show ?thesis by simp
    qed
    show ?thesis
    proof (cases res)
      case Nil
      with run g Inr loop show ?thesis
        by (auto simp: port_pass_def split: if_splits prod.splits)
    next
      case (Cons m ms)
      note c1 = Cons
      show ?thesis
      proof (cases ms)
        case Nil
        from notin c1 have "fst m \<noteq> d" by auto
        from del [OF this] run g Inr c1 Nil l1 x show ?thesis
          by (auto simp: port_pass_def split: if_splits prod.splits)
      next
        case (Cons m2 ms2)
        with run g Inr c1 loop show ?thesis
          by (auto simp: port_pass_def simp del: delete_port_entries.simps
              split: if_splits prod.splits)
      qed
    qed
  qed
qed

lemma name_loop_keeps:
  "name_inv pn (ldb s) u ms \<Longrightarrow> (d, e) \<in> set (ldb s) \<Longrightarrow> name e = Some a \<Longrightarrow> a \<noteq> pn \<Longrightarrow>
   name_loop s pn u ms = (Continue u', s') \<Longrightarrow>
     (d, if d \<in> fst ` set ms then e\<lparr>aliases := filter (\<lambda>x. x \<noteq> pn) (aliases e)\<rparr> else e)
       \<in> set (ldb s')"
proof (induction ms arbitrary: s u e)
  case Nil
  then show ?case by simp
next
  case (Cons m ms)
  note inv = Cons.prems(1) and x = Cons.prems(2) and nm = Cons.prems(3) and ne = Cons.prems(4)
    and run = Cons.prems(5)
  note D = name_invD [OF inv]
  have not_u: "u \<noteq> Some d"
  proof
    assume "u = Some d"
    with D(4) [OF x] nm ne show False by simp
  qed
  show ?case
  proof (cases "fst m = d")
    case True
    with D(5) [of m "(d, e)"] x have m: "m = (d, e)" by simp
    obtain r1 s1 where rem: "sysdb_svc_remove_alias s d pn = (r1, s1)"
      by (cases "sysdb_svc_remove_alias s d pn")
    with run m nm ne have r1: "r1 = EOK" and rest: "name_loop s1 pn u ms = (Continue u', s')"
      by (auto split: if_splits)
    let ?e = "e\<lparr>aliases := filter (\<lambda>x. x \<noteq> pn) (aliases e)\<rparr>"
    let ?g = "\<lambda>x. if fst x = d then (fst x, (snd x)\<lparr>aliases := filter (\<lambda>a. a \<noteq> pn) (aliases (snd x))\<rparr>)
                   else x"
    from remove_aliasD [OF rem] r1 have db: "ldb s1 = map ?g (ldb s)" by simp
    from x have "?g (d, e) \<in> ?g ` set (ldb s)" by (rule imageI)
    then have x1: "(d, ?e) \<in> set (ldb s1)" unfolding db by simp
    from nm ne m have "name (snd m) \<noteq> Some pn" by simp
    from inv_alias [OF inv this] db m have inv1: "name_inv pn (ldb s1) u ms" by simp
    from D(2) m have notin: "d \<notin> fst ` set ms" by (auto simp: image_iff)
    have "name ?e = Some a" using nm by simp
    from Cons.IH [OF inv1 x1 this ne rest] notin m show ?thesis by simp
  next
    case False
    have keep: "(d, e) \<in> set (filter (\<lambda>x. fst x \<noteq> fst m) db)" if "(d, e) \<in> set db" for db
      using that False by simp
    have goal: "(d, e) \<in> set (ldb s1) \<Longrightarrow> name_inv pn (ldb s1) u1 ms \<Longrightarrow>
        name_loop s1 pn u1 ms = (Continue u', s') \<Longrightarrow> ?thesis" for s1 u1
    proof -
      assume a: "(d, e) \<in> set (ldb s1)" "name_inv pn (ldb s1) u1 ms"
        "name_loop s1 pn u1 ms = (Continue u', s')"
      from Cons.IH [OF a(2) a(1) nm ne a(3)] False show ?thesis by auto
    qed
    show ?thesis
    proof (cases "name (snd m)")
      case None
      obtain r1 s1 where del: "sysdb_delete_entry s (fst m) True = (r1, s1)"
        by (cases "sysdb_delete_entry s (fst m) True")
      with run None have r1: "r1 = EOK" and rest: "name_loop s1 pn u ms = (Continue u', s')"
        by (auto split: if_splits)
      from delete_entryD [OF del] r1 have db: "ldb s1 = filter (\<lambda>x. fst x \<noteq> fst m) (ldb s)"
        by simp
      with inv_delete_head [OF inv] have inv1: "name_inv pn (ldb s1) u ms" by simp
      from keep [OF x] db have "(d, e) \<in> set (ldb s1)" by simp
      from goal [OF this inv1 rest] show ?thesis .
    next
      case (Some n)
      show ?thesis
      proof (cases "n = pn")
        case neq: False
        obtain r1 s1 where rem: "sysdb_svc_remove_alias s (fst m) pn = (r1, s1)"
          by (cases "sysdb_svc_remove_alias s (fst m) pn")
        with run Some neq have r1: "r1 = EOK" and rest: "name_loop s1 pn u ms = (Continue u', s')"
          by (auto split: if_splits)
        let ?g = "\<lambda>x. if fst x = fst m
             then (fst x, (snd x)\<lparr>aliases := filter (\<lambda>a. a \<noteq> pn) (aliases (snd x))\<rparr>) else x"
        from remove_aliasD [OF rem] r1 have db: "ldb s1 = map ?g (ldb s)" by simp
        from x have "?g (d, e) \<in> ?g ` set (ldb s)" by (rule imageI)
        with False have x1: "(d, e) \<in> set (ldb s1)" unfolding db by simp
        from Some neq have "name (snd m) \<noteq> Some pn" by simp
        from inv_alias [OF inv this] db have inv1: "name_inv pn (ldb s1) u ms" by simp
        from goal [OF x1 inv1 rest] show ?thesis .
      next
        case True
        show ?thesis
        proof (cases u)
          case None
          with run Some True have rest: "name_loop s pn (Some (fst m)) ms = (Continue u', s')"
            by simp
          from inv None Some True have "name_inv pn (ldb s) (Some (fst m)) ms"
            by (auto intro: inv_target)
          from goal [OF x this rest] show ?thesis .
        next
          case u: (Some ud)
          obtain r1 s1 where del1: "sysdb_delete_entry s ud True = (r1, s1)"
            by (cases "sysdb_delete_entry s ud True")
          obtain r2 s2 where del2: "sysdb_delete_entry s1 (fst m) True = (r2, s2)"
            by (cases "sysdb_delete_entry s1 (fst m) True")
          from run Some True u del1 del2
          have r: "r1 = EOK" "r2 = EOK" and rest: "name_loop s2 pn None ms = (Continue u', s')"
            by (auto split: if_splits)
          from delete_entryD [OF del1] r have 1: "ldb s1 = filter (\<lambda>x. fst x \<noteq> ud) (ldb s)"
            by simp
          from delete_entryD [OF del2] r have 2: "ldb s2 = filter (\<lambda>x. fst x \<noteq> fst m) (ldb s1)"
            by simp
          from inv u have "name_inv pn (ldb s) (Some ud) (m # ms)" by simp
          from inv_delete_head [OF inv_delete_target [OF this]] 1 2
          have inv2: "name_inv pn (ldb s2) None ms" by simp
          from not_u u have "ud \<noteq> d" by simp
          with x False 1 2 have "(d, e) \<in> set (ldb s2)" by simp
          from goal [OF this inv2 rest] show ?thesis .
        qed
      qed
    qed
  qed
qed

lemma name_pass_keeps:
  assumes free: "faults s = []" and dist: "distinct (map fst (ldb s))"
    and x: "(d, e) \<in> set (ldb s)" and nm: "name e = Some a" and ne: "a \<noteq> pn"
    and al: "pn \<in> set (aliases e)" and pr: "protocols e \<noteq> []"
    and run: "name_pass s pn = (Continue u, s')"
  shows "(d, e\<lparr>aliases := filter (\<lambda>x. x \<noteq> pn) (aliases e)\<rparr>) \<in> set (ldb s')"
proof -
  define res where "res = filter (\<lambda>m. filter_match (By_name None pn) (snd m)) (ldb s)"
  from x al pr have xin: "(d, e) \<in> set res"
    unfolding res_def by (simp add: proto_match_def)
  then have ne_res: "res \<noteq> []" by auto
  from xin have din: "d \<in> fst ` set res" by (force simp: image_iff)
  from run free ne_res have loop: "name_loop s pn None res = (Continue u, s')"
    unfolding res_def by (simp add: name_pass_def getservbyname_free)
  have inv: "name_inv pn (ldb s) None res"
    unfolding res_def using dist by (rule name_inv_init)
  from name_loop_keeps [OF inv x nm ne loop] din show ?thesis by simp
qed

lemma apply_record_keeps:
  assumes inv: "name_inv pn (ldb s) u []" and x: "(d, e) \<in> set (ldb s)"
    and nm: "name e \<noteq> Some pn"
    and run: "apply_record s u pn port al pr = (Inr dn, s')"
  shows "(d, e) \<in> set (ldb s') \<and> dn \<noteq> d"
proof (cases u)
  case None
  with run have add: "sysdb_svc_add s pn port al pr = (Inr dn, s')"
    by (simp add: apply_record_def)
  from svc_addD [OF add] have notin: "dn \<notin> fst ` set (ldb s)"
    and db: "ldb s' = ldb s @ [(dn, new_entry s pn port al pr)]" by auto
  from x have "d \<in> fst ` set (ldb s)" by (force simp: image_iff)
  with notin have "dn \<noteq> d" by auto
  with x db show ?thesis by simp
next
  case (Some du)
  obtain r1 s1 where upd: "sysdb_svc_update s (Some du) port al pr = (r1, s1)"
    by (cases "sysdb_svc_update s (Some du) port al pr")
  with run Some have r1: "r1 = EOK" "dn = du" "s1 = s'"
    by (auto simp: apply_record_def split: if_splits)
  let ?g = "\<lambda>m. if fst m = du
       then (fst m, (snd m)\<lparr>svc_port := Some port,
               aliases := (if al = [] then aliases (snd m) else al), protocols := pr\<rparr>)
       else m"
  from svc_updateD [OF upd] r1 have db: "ldb s' = map ?g (ldb s)" by auto
  have du: "du \<noteq> d"
  proof
    assume "du = d"
    with name_invD(4) [OF inv x] Some nm show False by simp
  qed
  from x have "?g (d, e) \<in> ?g ` set (ldb s)" by (rule imageI)
  with du have "(d, e) \<in> set (ldb s')" unfolding db by simp
  with du r1 show ?thesis by simp
qed

lemma set_timestamps_keeps:
  assumes run: "set_timestamps s dn ttl now = (EOK, s')" and x: "(d, e) \<in> set (ldb s)"
    and ne: "dn \<noteq> d"
  shows "(d, e) \<in> set (ldb s')"
proof -
  let ?g = "\<lambda>m. if fst m = dn
       then (fst m, (snd m)\<lparr>last_update := Some now,
               cache_expire := Some (if ttl \<noteq> 0 then now + ttl else 0)\<rparr>)
       else m"
  from set_timestampsD [OF run] have db: "ldb s' = map ?g (ldb s)" by simp
  from x have "?g (d, e) \<in> ?g ` set (ldb s)" by (rule imageI)
  with ne show ?thesis unfolding db by simp
qed

lemma store_service_keeps:
  assumes free: "faults s = []" and dist: "distinct (map fst (ldb s))"
    and call: "sysdb_store_service s pn port al pr ttl now = (EOK, s')"
    and x: "(d, e) \<in> set (ldb s)" and nm: "name e = Some a" and ne: "a \<noteq> pn"
    and als: "pn \<in> set (aliases e)" and vis: "protocols e \<noteq> []"
    and p: "svc_port e \<noteq> Some port"
  shows "(d, e\<lparr>aliases := filter (\<lambda>x. x \<noteq> pn) (aliases e)\<rparr>) \<in> set (ldb s')"
proof -
  let ?s1 = "s\<lparr>txs := ldb s # txs s\<rparr>"
  let ?e = "e\<lparr>aliases := filter (\<lambda>x. x \<noteq> pn) (aliases e)\<rparr>"
  have f1: "faults ?s1 = []" and d1: "distinct (map fst (ldb ?s1))"
    and x1: "(d, e) \<in> set (ldb ?s1)"
    using free dist x by simp_all
  obtain r2 in_tx s2 where steps: "store_steps ?s1 pn port al pr ttl now = (r2, in_tx, s2)"
    by (cases "store_steps ?s1 pn port al pr ttl now")
  with call free have fin: "store_done r2 in_tx s2 = (EOK, s')"
    by (simp add: sysdb_store_service_def talloc_new_def next_fault_free
        sysdb_transaction_start_def EOK_def)
  then have r2: "r2 = EOK"
    by (auto simp: store_done_def split: if_splits prod.splits)
  from steps r2 obtain sa u sb dn sc sd where
    pp: "port_pass ?s1 pn port = (Continue (), sa)" and
    n: "name_pass sa pn = (Continue u, sb)" and
    ap: "apply_record sb u pn port al pr = (Inr dn, sc)" and
    t: "set_timestamps sc dn ttl now = (EOK, sd)" and
    c: "sysdb_transaction_commit sd = (EOK, s2)" and
    in_tx: "\<not> in_tx"
    by (auto elim: store_steps_EOK)
  from fin in_tx have s': "s' = s2" by (simp add: store_done_def)
  from port_pass_faults [OF f1, of pn port] pp have fa: "faults sa = []" by simp
  from port_pass_distinct [OF d1, of pn port] pp have da: "distinct (map fst (ldb sa))" by simp
  from port_pass_keeps [OF d1 x1 p pp] have xa: "(d, e) \<in> set (ldb sa)" .
  from name_pass_keeps [OF fa da xa nm ne als vis n] have xb: "(d, ?e) \<in> set (ldb sb)" .
  have "name ?e \<noteq> Some pn" using nm ne by simp
  from apply_record_keeps [OF name_pass_inv [OF fa da n] xb this ap]
  have xc: "(d, ?e) \<in> set (ldb sc)" and dn: "dn \<noteq> d" by simp_all
  from set_timestamps_keeps [OF t xc dn] have "(d, ?e) \<in> set (ldb sd)" .
  with commitD [OF c] s' show ?thesis by simp
qed

section \<open>Port uniqueness when every collaborator works\<close>

text \<open>
  When no call into a collaborator fails, and the store holds one entry per identifier
  and only entries with a protocol, a successful \<open>sysdb_store_service\<close> keeps the ports
  unique (\<open>port_uniqueness_preserved\<close>, the last lemma of this section).
\<close>

lemma port_unique_filter: "port_unique db \<Longrightarrow> port_unique (filter P db)"
  by (auto simp: port_unique_def)

lemma port_inv_filter: "port_inv pn port db \<Longrightarrow> port_inv pn port (filter P db)"
  by (auto simp: port_inv_def port_unique_def)

lemma port_inv_alias:
  assumes "port_inv pn port db"
  shows "port_inv pn port
     (map (\<lambda>x. if fst x = d
                then (fst x, (snd x)\<lparr>aliases := filter (\<lambda>a. a \<noteq> pn) (aliases (snd x))\<rparr>)
                else x) db)"
proof -
  let ?g = "\<lambda>x. if fst x = d
                then (fst x, (snd x)\<lparr>aliases := filter (\<lambda>a. a \<noteq> pn) (aliases (snd x))\<rparr>)
                else x"
  have g: "\<And>x. svc_port (snd (?g x)) = svc_port (snd x)"
    "\<And>x. protocols (snd (?g x)) = protocols (snd x)"
    "\<And>x. name (snd (?g x)) = name (snd x)"
    by simp_all
  have u: "x = y" if "x \<in> set db" "y \<in> set db" "svc_port (snd x) = Some p"
    "svc_port (snd y) = Some p" for x y p
  proof -
    from assms have "port_unique db" by (simp add: port_inv_def)
    with that show ?thesis unfolding port_unique_def by blast
  qed
  have v: "protocols (snd x) \<noteq> []" if "x \<in> set db" for x
    using assms that by (simp add: port_inv_def)
  have q: "name (snd x) = Some pn" if "x \<in> set db" "svc_port (snd x) = Some port" for x
    using assms that by (simp add: port_inv_def)
  have "port_unique (map ?g db)"
    unfolding port_unique_def
  proof (intro ballI allI impI)
    fix m m' p assume "m \<in> set (map ?g db)" "m' \<in> set (map ?g db)"
      and eq: "svc_port (snd m) = Some p \<and> svc_port (snd m') = Some p"
    then obtain x y where x: "x \<in> set db" "m = ?g x" and y: "y \<in> set db" "m' = ?g y"
      by (auto simp only: set_map image_iff)
    have "svc_port (snd x) = Some p" "svc_port (snd y) = Some p"
      using eq x(2) y(2) by (auto split: if_splits)
    from u [OF x(1) y(1) this] x y show "m = m'" by simp
  qed
  moreover have "\<forall>m \<in> set (map ?g db). protocols (snd m) \<noteq> []"
    using v by (auto simp only: set_map image_iff g(2))
  moreover have "\<forall>m \<in> set (map ?g db). svc_port (snd m) = Some port \<longrightarrow> name (snd m) = Some pn"
    using q by (auto simp only: set_map image_iff g(1) g(3))
  ultimately show ?thesis unfolding port_inv_def by blast
qed

lemma name_loop_port_inv:
  "port_inv pn port (ldb s) \<Longrightarrow> name_loop s pn u ms = (Continue u', s') \<Longrightarrow>
     port_inv pn port (ldb s')"
proof (induction ms arbitrary: s u)
  case Nil
  then show ?case by simp
next
  case (Cons m ms)
  note inv = Cons.prems(1) and run = Cons.prems(2)
  have del: "\<And>s0 dn r1 s1. port_inv pn port (ldb s0) \<Longrightarrow>
      sysdb_delete_entry s0 dn True = (r1, s1) \<Longrightarrow> port_inv pn port (ldb s1)"
  proof -
    fix s0 dn r1 s1
    assume i: "port_inv pn port (ldb s0)" and d: "sysdb_delete_entry s0 dn True = (r1, s1)"
    from delete_entryD [OF d] i port_inv_filter [OF i] show "port_inv pn port (ldb s1)"
      by (auto split: if_splits)
  qed
  show ?case
  proof (cases "name (snd m)")
    case None
    obtain r1 s1 where d: "sysdb_delete_entry s (fst m) True = (r1, s1)"
      by (cases "sysdb_delete_entry s (fst m) True")
    with run None have rest: "name_loop s1 pn u ms = (Continue u', s')"
      by (auto split: if_splits)
    from Cons.IH [OF del [OF inv d] rest] show ?thesis .
  next
    case (Some n)
    show ?thesis
    proof (cases "n = pn")
      case False
      obtain r1 s1 where rem: "sysdb_svc_remove_alias s (fst m) pn = (r1, s1)"
        by (cases "sysdb_svc_remove_alias s (fst m) pn")
      with run Some False have r1: "r1 = EOK" and rest: "name_loop s1 pn u ms = (Continue u', s')"
        by (auto split: if_splits)
      from remove_aliasD [OF rem] r1 port_inv_alias [OF inv, of "fst m"]
      have "port_inv pn port (ldb s1)" by simp
      from Cons.IH [OF this rest] show ?thesis .
    next
      case True
      show ?thesis
      proof (cases u)
        case None
        with run Some True have rest: "name_loop s pn (Some (fst m)) ms = (Continue u', s')"
          by simp
        from Cons.IH [OF inv rest] show ?thesis .
      next
        case (Some ud)
        obtain r1 s1 where del1: "sysdb_delete_entry s ud True = (r1, s1)"
          by (cases "sysdb_delete_entry s ud True")
        obtain r2 s2 where del2: "sysdb_delete_entry s1 (fst m) True = (r2, s2)"
          by (cases "sysdb_delete_entry s1 (fst m) True")
        from run \<open>name (snd m) = Some n\<close> True Some del1 del2
        have rest: "name_loop s2 pn None ms = (Continue u', s')"
          by (auto split: if_splits)
        from Cons.IH [OF del [OF del [OF inv del1] del2] rest] show ?thesis .
      qed
    qed
  qed
qed

lemma name_pass_port_inv:
  assumes "port_inv pn port (ldb s)" and "name_pass s pn = (Continue u, s')"
  shows "port_inv pn port (ldb s')"
proof -
  obtain r1 s1 where g: "sysdb_getservbyname s pn None = (r1, s1)"
    by (cases "sysdb_getservbyname s pn None")
  from getservbyname_frame [OF g] assms(1) have i1: "port_inv pn port (ldb s1)" by simp
  show ?thesis
  proof (cases r1)
    case (Inl e)
    with g assms(2) have "s' = s1" by (auto simp: name_pass_def split: if_splits)
    with i1 show ?thesis by simp
  next
    case (Inr res)
    with g assms(2) have "name_loop s1 pn None res = (Continue u, s')"
      by (simp add: name_pass_def)
    from name_loop_port_inv [OF i1 this] show ?thesis .
  qed
qed

lemma port_uniqueD:
  "port_unique db \<Longrightarrow> x \<in> set db \<Longrightarrow> y \<in> set db \<Longrightarrow>
     svc_port (snd x) = Some p \<Longrightarrow> svc_port (snd y) = Some p \<Longrightarrow> x = y"
  unfolding port_unique_def by blast

lemma port_unique_modify:
  assumes f: "\<And>e. svc_port (f e) = svc_port e" and u: "port_unique db"
  shows "port_unique (map (\<lambda>x. if fst x = d then (fst x, f (snd x)) else x) db)"
  unfolding port_unique_def
proof (intro ballI allI impI)
  let ?g = "\<lambda>x. if fst x = d then (fst x, f (snd x)) else x"
  fix m m' p assume "m \<in> set (map ?g db)" "m' \<in> set (map ?g db)"
    and eq: "svc_port (snd m) = Some p \<and> svc_port (snd m') = Some p"
  then obtain x y where x: "x \<in> set db" "m = ?g x" and y: "y \<in> set db" "m' = ?g y"
    by (auto simp only: set_map image_iff)
  have "svc_port (snd x) = Some p" "svc_port (snd y) = Some p"
    using eq x(2) y(2) f by (auto split: if_splits)
  from port_uniqueD [OF u x(1) y(1) this] x y show "m = m'" by simp
qed

lemma delete_port_entries_result:
  "delete_port_entries s ms = (EOK, s') \<Longrightarrow>
     ldb s' = filter (\<lambda>x. fst x \<notin> fst ` set ms) (ldb s)"
proof (induction ms arbitrary: s)
  case Nil
  then show ?case by simp
next
  case (Cons m ms)
  obtain r1 s1 where d: "sysdb_delete_entry s (fst m) True = (r1, s1)"
    by (cases "sysdb_delete_entry s (fst m) True")
  with Cons.prems have r1: "r1 = EOK" and rest: "delete_port_entries s1 ms = (EOK, s')"
    by (auto split: if_splits)
  from delete_entryD [OF d] r1 have "ldb s1 = filter (\<lambda>x. fst x \<noteq> fst m) (ldb s)" by simp
  with Cons.IH [OF rest] show ?case by (auto intro: filter_cong)
qed

lemma port_pass_port_inv:
  assumes free: "faults s = []" and pu: "port_unique (ldb s)"
    and vis: "\<forall>m \<in> set (ldb s). protocols (snd m) \<noteq> []"
    and run: "port_pass s pn port = (Continue (), s')"
  shows "port_inv pn port (ldb s')"
proof -
  define res where "res = filter (\<lambda>m. filter_match (By_port None port) (snd m)) (ldb s)"
  have pos: "0 < port"
  proof (rule ccontr)
    assume "\<not> 0 < port"
    with run show False
      by (simp add: port_pass_def sysdb_getservbyport_def errno_defs)
  qed
  have look: "sysdb_getservbyport s port None = (if res = [] then Inl ENOENT else Inr res, s)"
    using free pos unfolding res_def by (simp add: getservbyport_free)
  have res: "\<And>x. x \<in> set (ldb s) \<Longrightarrow> svc_port (snd x) = Some port \<Longrightarrow> x \<in> set res"
    using vis unfolding res_def by (simp add: proto_match_def)
  have res_sub: "\<And>x. x \<in> set res \<Longrightarrow> x \<in> set (ldb s)"
    unfolding res_def by simp
  have sub: "\<And>P. port_unique (filter P (ldb s)) \<and>
      (\<forall>m \<in> set (filter P (ldb s)). protocols (snd m) \<noteq> [])"
    using pu vis by (simp add: port_unique_filter)
  show ?thesis
  proof (cases res)
    case Nil
    from run have "s' = s"
      unfolding port_pass_def look Nil by (simp add: errno_defs)
    moreover have "\<And>x. x \<in> set (ldb s) \<Longrightarrow> svc_port (snd x) \<noteq> Some port"
    proof
      fix x assume "x \<in> set (ldb s)" "svc_port (snd x) = Some port"
      then have "x \<in> set res" by (rule res)
      then show False unfolding Nil by simp
    qed
    ultimately show ?thesis using pu vis by (simp add: port_inv_def)
  next
    case (Cons m ms)
    show ?thesis
    proof (cases ms)
      case Nil
      have only: "\<And>x. x \<in> set (ldb s) \<Longrightarrow> svc_port (snd x) = Some port \<Longrightarrow> x = m"
      proof -
        fix x assume "x \<in> set (ldb s)" "svc_port (snd x) = Some port"
        then have "x \<in> set res" by (rule res)
        then show "x = m" unfolding Cons Nil by simp
      qed
      show ?thesis
      proof (cases "name (snd m) = Some pn")
        case True
        from run True have "s' = s"
          unfolding port_pass_def look Cons Nil by simp
        moreover have "\<forall>x \<in> set (ldb s). svc_port (snd x) = Some port \<longrightarrow> name (snd x) = Some pn"
          using only True by blast
        ultimately show ?thesis using pu vis unfolding port_inv_def by simp
      next
        case False
        have "m \<in> set res" unfolding Cons by simp
        then have "m \<in> set (ldb s)" by (rule res_sub)
        then have "fst m \<in> fst ` set (ldb s)" by (rule imageI)
        from delete_entry_free [OF free this, of True]
        have del: "sysdb_delete_entry s (fst m) True
            = (EOK, s\<lparr>ldb := filter (\<lambda>x. fst x \<noteq> fst m) (ldb s)\<rparr>)" .
        from run False have "s' = s\<lparr>ldb := filter (\<lambda>x. fst x \<noteq> fst m) (ldb s)\<rparr>"
          unfolding port_pass_def look Cons Nil by (simp add: del)
        then have db: "ldb s' = filter (\<lambda>x. fst x \<noteq> fst m) (ldb s)" by simp
        have "\<forall>x \<in> set (ldb s'). svc_port (snd x) = Some port \<longrightarrow> name (snd x) = Some pn"
        proof (intro ballI impI)
          fix x assume x: "x \<in> set (ldb s')" and p: "svc_port (snd x) = Some port"
          with db have xs: "x \<in> set (ldb s)" "fst x \<noteq> fst m" by simp_all
          from only [OF xs(1) p] xs(2) show "name (snd x) = Some pn" by simp
        qed
        with sub [of "\<lambda>x. fst x \<noteq> fst m"] show ?thesis
          unfolding port_inv_def db by simp
      qed
    next
      case (Cons m2 ms2)
      obtain r1 s1 where d: "delete_port_entries s res = (r1, s1)"
        by (cases "delete_port_entries s res")
      have "port_pass s pn port = (if r1 \<noteq> EOK then (Goto_done r1, s1) else (Continue (), s1))"
        unfolding port_pass_def look using d \<open>res = m # ms\<close> Cons
        by (simp del: delete_port_entries.simps)
      with run have "r1 = EOK" "s1 = s'" by (auto split: if_splits)
      with delete_port_entries_result [of s res s'] d
      have db: "ldb s' = filter (\<lambda>x. fst x \<notin> fst ` set res) (ldb s)" by simp
      have "\<forall>x \<in> set (ldb s'). svc_port (snd x) = Some port \<longrightarrow> name (snd x) = Some pn"
      proof (intro ballI impI)
        fix x assume x: "x \<in> set (ldb s')" and p: "svc_port (snd x) = Some port"
        with db have xs: "x \<in> set (ldb s)" "fst x \<notin> fst ` set res" by simp_all
        from res [OF xs(1) p] have "fst x \<in> fst ` set res" by (rule imageI)
        with xs(2) show "name (snd x) = Some pn" by (rule notE)
      qed
      with sub [of "\<lambda>x. fst x \<notin> fst ` set res"] show ?thesis
        unfolding port_inv_def db by simp
    qed
  qed
qed

lemma apply_record_port_unique:
  assumes inv: "name_inv pn (ldb s) u []" and pinv: "port_inv pn port (ldb s)"
    and run: "apply_record s u pn port al pr = (Inr dn, s')"
  shows "port_unique (ldb s')"
proof -
  have pu: "port_unique (ldb s)" using pinv by (simp add: port_inv_def)
  have at_u: "\<And>x. x \<in> set (ldb s) \<Longrightarrow> svc_port (snd x) = Some port \<Longrightarrow> u = Some (fst x)"
  proof -
    fix x assume x: "x \<in> set (ldb s)" and p: "svc_port (snd x) = Some port"
    with pinv have "name (snd x) = Some pn" "protocols (snd x) \<noteq> []"
      by (simp_all add: port_inv_def)
    then have "filter_match (By_name None pn) (snd x)" by (simp add: proto_match_def)
    from name_invD(3) [OF inv x this] show "u = Some (fst x)" by simp
  qed
  show ?thesis
  proof (cases u)
    case None
    with run have add: "sysdb_svc_add s pn port al pr = (Inr dn, s')"
      by (simp add: apply_record_def)
    from svc_addD [OF add] have db: "ldb s' = ldb s @ [(dn, new_entry s pn port al pr)]"
      by auto
    have none: "\<And>x. x \<in> set (ldb s) \<Longrightarrow> svc_port (snd x) \<noteq> Some port"
      using at_u None by auto
    show ?thesis
      unfolding port_unique_def db
    proof (intro ballI allI impI)
      fix m m' p
      assume m: "m \<in> set (ldb s @ [(dn, new_entry s pn port al pr)])"
        and m': "m' \<in> set (ldb s @ [(dn, new_entry s pn port al pr)])"
        and eq: "svc_port (snd m) = Some p \<and> svc_port (snd m') = Some p"
      show "m = m'"
      proof (cases "m \<in> set (ldb s)")
        case True
        from none [OF True] eq have "p \<noteq> port" by auto
        with eq m' have "m' \<in> set (ldb s)" by (auto simp: new_entry_def)
        from port_uniqueD [OF pu True this] eq show ?thesis by blast
      next
        case False
        with m have 1: "m = (dn, new_entry s pn port al pr)" by simp
        with eq have "p = port" by (simp add: new_entry_def)
        with eq none [of m'] have "m' \<notin> set (ldb s)" by auto
        with m' 1 show ?thesis by simp
      qed
    qed
  next
    case (Some d)
    obtain r1 s1 where upd: "sysdb_svc_update s (Some d) port al pr = (r1, s1)"
      by (cases "sysdb_svc_update s (Some d) port al pr")
    with run Some have r1: "r1 = EOK" "s1 = s'"
      by (auto simp: apply_record_def split: if_splits)
    let ?f = "\<lambda>e. e\<lparr>svc_port := Some port, aliases := (if al = [] then aliases e else al),
      protocols := pr\<rparr>"
    let ?g = "\<lambda>m. if fst m = d then (fst m, ?f (snd m)) else m"
    from svc_updateD [OF upd] r1 have db: "ldb s' = map ?g (ldb s)" by auto
    have dist: "distinct (map fst (ldb s))" by (rule name_invD(1) [OF inv])
    have only: "\<And>x. x \<in> set (ldb s) \<Longrightarrow> svc_port (snd x) = Some port \<Longrightarrow> fst x = d"
      using at_u Some by auto
    show ?thesis
      unfolding port_unique_def db
    proof (intro ballI allI impI)
      fix m m' p
      assume "m \<in> set (map ?g (ldb s))" "m' \<in> set (map ?g (ldb s))"
        and eq: "svc_port (snd m) = Some p \<and> svc_port (snd m') = Some p"
      then obtain x y where x: "x \<in> set (ldb s)" "m = ?g x" and y: "y \<in> set (ldb s)" "m' = ?g y"
        by (auto simp only: set_map image_iff)
      have same: "x = y"
      proof (cases "fst x = d")
        case True
        with x eq have "p = port" by simp
        have "fst y = d"
        proof (rule ccontr)
          assume n: "fst y \<noteq> d"
          with y eq \<open>p = port\<close> have "svc_port (snd y) = Some port" by simp
          from only [OF y(1) this] n show False by simp
        qed
        with True dist x(1) y(1) show ?thesis
          by (metis eq_key_imp_eq_value prod.collapse)
      next
        case False
        with x eq have px: "svc_port (snd x) = Some p" by simp
        have "fst y \<noteq> d"
        proof
          assume d: "fst y = d"
          with y eq have "p = port" by simp
          from only [OF x(1)] px this False show False by simp
        qed
        with y eq have "svc_port (snd y) = Some p" by simp
        from port_uniqueD [OF pu x(1) y(1) px this] show ?thesis .
      qed
      with x y show "m = m'" by simp
    qed
  qed
qed

lemma set_timestamps_port_unique:
  assumes "port_unique (ldb s)" and "set_timestamps s dn ttl now = (EOK, s')"
  shows "port_unique (ldb s')"
proof -
  from set_timestampsD [OF assms(2)]
  have "ldb s' = map (\<lambda>m. if fst m = dn
        then (fst m, (snd m)\<lparr>last_update := Some now,
               cache_expire := Some (if ttl \<noteq> 0 then now + ttl else 0)\<rparr>)
        else m) (ldb s)" by simp
  moreover have "port_unique (map (\<lambda>m. if fst m = dn
        then (fst m, (snd m)\<lparr>last_update := Some now,
               cache_expire := Some (if ttl \<noteq> 0 then now + ttl else 0)\<rparr>)
        else m) (ldb s))"
    using assms(1) by (intro port_unique_modify) simp_all
  ultimately show ?thesis by simp
qed

lemma port_uniqueness_preserved:
  assumes free: "faults s = []" and dist: "distinct (map fst (ldb s))"
    and pu: "port_unique (ldb s)" and vis: "\<forall>m \<in> set (ldb s). protocols (snd m) \<noteq> []"
    and call: "sysdb_store_service s pn port al pr ttl now = (EOK, s')"
  shows "port_unique (ldb s')"
proof -
  let ?s1 = "s\<lparr>txs := ldb s # txs s\<rparr>"
  have f1: "faults ?s1 = []" and d1: "distinct (map fst (ldb ?s1))"
    and pu1: "port_unique (ldb ?s1)" and vis1: "\<forall>m \<in> set (ldb ?s1). protocols (snd m) \<noteq> []"
    using free dist pu vis by simp_all
  obtain r2 in_tx s2 where steps: "store_steps ?s1 pn port al pr ttl now = (r2, in_tx, s2)"
    by (cases "store_steps ?s1 pn port al pr ttl now")
  with call free have fin: "store_done r2 in_tx s2 = (EOK, s')"
    by (simp add: sysdb_store_service_def talloc_new_def next_fault_free
        sysdb_transaction_start_def EOK_def)
  then have r2: "r2 = EOK"
    by (auto simp: store_done_def split: if_splits prod.splits)
  from steps r2 obtain sa u sb dn sc sd where
    p: "port_pass ?s1 pn port = (Continue (), sa)" and
    n: "name_pass sa pn = (Continue u, sb)" and
    a: "apply_record sb u pn port al pr = (Inr dn, sc)" and
    t: "set_timestamps sc dn ttl now = (EOK, sd)" and
    c: "sysdb_transaction_commit sd = (EOK, s2)" and
    in_tx: "\<not> in_tx"
    by (auto elim: store_steps_EOK)
  from fin in_tx have s': "s' = s2" by (simp add: store_done_def)
  from port_pass_faults [OF f1, of pn port] p have fa: "faults sa = []" by simp
  from port_pass_distinct [OF d1, of pn port] p have da: "distinct (map fst (ldb sa))" by simp
  note ia = port_pass_port_inv [OF f1 pu1 vis1 p]
  note ib = name_pass_port_inv [OF ia n]
  note nb = name_pass_inv [OF fa da n]
  note uc = apply_record_port_unique [OF nb ib a]
  note ud = set_timestamps_port_unique [OF uc t]
  from commitD [OF c] ud s' show ?thesis by simp
qed

section \<open>Atomicity of \<open>sysdb_store_service\<close>\<close>

text \<open>
  C1. \<open>sysdb_store_service\<close> is atomic: whatever the arguments and whichever call into a
  collaborator fails (in the port pass, the name pass, the update or addition, the time
  stamps, and also the allocation at the start, the start of the transaction and the
  commit), if the call returns an error then the entries of the cache and the open
  transactions are what they were before the call. The one assumption is that
  \<open>sysdb_transaction_cancel\<close> itself works: the code only logs its failure.
\<close>

theorem store_service_atomic:
  assumes call: "sysdb_store_service s primary_name port als protos cache_timeout now = (ret, s')"
    and err: "ret \<noteq> EOK"
    and cancel: "cancel_works s"
  shows "ldb s' = ldb s \<and> txs s' = txs s"
proof (cases "talloc_new s")
  case (Pair ok s0)
  then have s0: "ldb s0 = ldb s" "frame s s0"
    by (auto simp: talloc_new_def split: prod.splits dest!: next_faultD)
  show ?thesis
  proof (cases ok)
    case False
    with call Pair s0 show ?thesis
      by (simp add: sysdb_store_service_def frame_def)
  next
    case True
    obtain r1 s1 where start: "sysdb_transaction_start s0 = (r1, s1)"
      by (cases "sysdb_transaction_start s0")
    note s1 = startD [OF start]
    show ?thesis
    proof (cases "r1 = EOK")
      case False
      with call Pair True start s0 s1 show ?thesis
        by (simp add: sysdb_store_service_def store_done_def frame_def)
    next
      case r1: True
      obtain r2 in_tx s2 where steps:
        "store_steps s1 primary_name port als protos cache_timeout now = (r2, in_tx, s2)"
        by (cases "store_steps s1 primary_name port als protos cache_timeout now")
      note s2 = store_steps_frame [OF steps]
      from call Pair True start r1 steps
      have fin: "store_done r2 in_tx s2 = (ret, s')"
        by (simp add: sysdb_store_service_def)
      then have "ret = r2"
        by (auto simp: store_done_def split: if_splits prod.splits)
      with err s2 have in_tx: "in_tx" and txs2: "txs s2 = ldb s # txs s"
        using s1 r1 s0 by (auto simp: frame_def split: if_splits)
      have "cancel_works s2"
        using cancel s2 s1 s0 by (simp add: cancel_works_def frame_def)
      from cancel_restores [OF this txs2] fin in_tx show ?thesis
        by (auto simp: store_done_def)
    qed
  qed
qed

theorem store_service_atomic_witness:
  "sysdb_store_service
     \<lparr>ldb = [(''name=svc-a,cn=services,cn=d,cn=sysdb'',
              \<lparr>name = Some ''svc-a'', svc_port = Some 100, aliases = [], protocols = [''tcp''],
               create_time = Some 1, last_update = Some 1, cache_expire = Some 0\<rparr>)],
      txs = [], domain_name = ''d'', clock = 7,
      faults = [0, 0, 0, 0, 0, 0, 0, 0, 0, EIO], cancel_faults = []\<rparr>
     ''svc-b'' 100 [] [''tcp''] 3600 50
   = (EIO,
      \<lparr>ldb = [(''name=svc-a,cn=services,cn=d,cn=sysdb'',
              \<lparr>name = Some ''svc-a'', svc_port = Some 100, aliases = [], protocols = [''tcp''],
               create_time = Some 1, last_update = Some 1, cache_expire = Some 0\<rparr>)],
      txs = [], domain_name = ''d'', clock = 7, faults = [], cancel_faults = []\<rparr>)
   \<and> EIO \<noteq> EOK"
proof -
  let ?s = "\<lparr>ldb = [(''name=svc-a,cn=services,cn=d,cn=sysdb'',
              \<lparr>name = Some ''svc-a'', svc_port = Some 100, aliases = [], protocols = [''tcp''],
               create_time = Some 1, last_update = Some 1, cache_expire = Some 0\<rparr>)],
      txs = [], domain_name = ''d'', clock = 7,
      faults = [0, 0, 0, 0, 0, 0, 0, 0, 0, EIO], cancel_faults = []\<rparr>"
  have call: "sysdb_store_service ?s ''svc-b'' 100 [] [''tcp''] 3600 50 = (EIO, ?s\<lparr>faults := []\<rparr>)"
    by (simp add: eval_defs)
  have err: "EIO \<noteq> EOK" by (simp add: errno_defs)
  have cw: "cancel_works ?s" by (simp add: cancel_works_def)
  from store_service_atomic [OF call err cw] call err show ?thesis by simp
qed

section \<open>The lookups\<close>

text \<open>
  C8. \<open>sysdb_getservbyport\<close> returns \<open>EINVAL\<close> for every port that is not positive,
  without a call into the store (the context, with its schedule of return codes, is
  untouched). When the collaborators work, both lookups return \<open>ENOENT\<close> exactly when
  no entry matches, and otherwise all the entries that match. Both leave the entries and
  the open transactions as they are, whatever fails.
\<close>

theorem lookup_results:
  "(port \<le> 0 \<longrightarrow> sysdb_getservbyport s port proto = (Inl EINVAL, s)) \<and>
   (0 < port \<and> faults s = [] \<longrightarrow>
      sysdb_getservbyport s port proto =
        (if filter (\<lambda>m. filter_match (By_port proto port) (snd m)) (ldb s) = [] then Inl ENOENT
         else Inr (filter (\<lambda>m. filter_match (By_port proto port) (snd m)) (ldb s)), s)) \<and>
   (faults s = [] \<longrightarrow>
      sysdb_getservbyname s nm proto =
        (if filter (\<lambda>m. filter_match (By_name proto nm) (snd m)) (ldb s) = [] then Inl ENOENT
         else Inr (filter (\<lambda>m. filter_match (By_name proto nm) (snd m)) (ldb s)), s)) \<and>
   ldb (snd (sysdb_getservbyport s port proto)) = ldb s \<and>
   txs (snd (sysdb_getservbyport s port proto)) = txs s \<and>
   ldb (snd (sysdb_getservbyname s nm proto)) = ldb s \<and>
   txs (snd (sysdb_getservbyname s nm proto)) = txs s"
proof -
  have a: "port \<le> 0 \<longrightarrow> sysdb_getservbyport s port proto = (Inl EINVAL, s)"
    by (simp add: sysdb_getservbyport_def)
  have b: "ldb (snd (sysdb_getservbyport s port proto)) = ldb s \<and>
      txs (snd (sysdb_getservbyport s port proto)) = txs s"
    using getservbyport_frame [of s port proto]
    by (cases "sysdb_getservbyport s port proto") (simp add: frame_def)
  have c: "ldb (snd (sysdb_getservbyname s nm proto)) = ldb s \<and>
      txs (snd (sysdb_getservbyname s nm proto)) = txs s"
    using getservbyname_frame [of s nm proto]
    by (cases "sysdb_getservbyname s nm proto") (simp add: frame_def)
  show ?thesis
    using a b c by (simp add: getservbyport_free getservbyname_free Let_def)
qed

theorem lookup_results_witness:
  "sysdb_getservbyport
     \<lparr>ldb = [(''a'', \<lparr>name = Some ''ldap'', svc_port = Some 389, aliases = [''ldaps''],
                     protocols = [''tcp''], create_time = Some 1, last_update = Some 1,
                     cache_expire = Some 0\<rparr>)],
      txs = [], domain_name = ''d'', clock = 7, faults = [], cancel_faults = []\<rparr> (-1) None
   = (Inl EINVAL,
      \<lparr>ldb = [(''a'', \<lparr>name = Some ''ldap'', svc_port = Some 389, aliases = [''ldaps''],
                     protocols = [''tcp''], create_time = Some 1, last_update = Some 1,
                     cache_expire = Some 0\<rparr>)],
      txs = [], domain_name = ''d'', clock = 7, faults = [], cancel_faults = []\<rparr>)
   \<and> fst (sysdb_getservbyport
     \<lparr>ldb = [(''a'', \<lparr>name = Some ''ldap'', svc_port = Some 389, aliases = [''ldaps''],
                     protocols = [''tcp''], create_time = Some 1, last_update = Some 1,
                     cache_expire = Some 0\<rparr>)],
      txs = [], domain_name = ''d'', clock = 7, faults = [], cancel_faults = []\<rparr> 389 (Some ''udp''))
   = Inl ENOENT
   \<and> fst (sysdb_getservbyname
     \<lparr>ldb = [(''a'', \<lparr>name = Some ''ldap'', svc_port = Some 389, aliases = [''ldaps''],
                     protocols = [''tcp''], create_time = Some 1, last_update = Some 1,
                     cache_expire = Some 0\<rparr>)],
      txs = [], domain_name = ''d'', clock = 7, faults = [], cancel_faults = []\<rparr> ''ldaps'' None)
   = Inr [(''a'', \<lparr>name = Some ''ldap'', svc_port = Some 389, aliases = [''ldaps''],
                     protocols = [''tcp''], create_time = Some 1, last_update = Some 1,
                     cache_expire = Some 0\<rparr>)]"
proof -
  let ?s = "\<lparr>ldb = [(''a'', \<lparr>name = Some ''ldap'', svc_port = Some 389, aliases = [''ldaps''],
                     protocols = [''tcp''], create_time = Some 1, last_update = Some 1,
                     cache_expire = Some 0\<rparr>)],
      txs = [], domain_name = ''d'', clock = 7, faults = [], cancel_faults = []\<rparr>"
  from lookup_results [of "-1" ?s None "''x''"] have 1: "sysdb_getservbyport ?s (-1) None = (Inl EINVAL, ?s)"
    by simp
  from lookup_results [of 389 ?s "Some ''udp''" "''x''"]
  have 2: "fst (sysdb_getservbyport ?s 389 (Some ''udp'')) = Inl ENOENT"
    by (simp add: proto_match_def)
  from lookup_results [of 389 ?s None "''ldaps''"]
  have 3: "fst (sysdb_getservbyname ?s ''ldaps'' None) = Inr (ldb ?s)"
    by (simp add: proto_match_def)
  from 1 2 3 show ?thesis by simp
qed

section \<open>A failed delete of the stale port owner\<close>

text \<open>
  C3. Every corrective delete of \<open>sysdb_store_service\<close> that fails should abort the call.
  The deletes in the loops do (lines 235, 307, 327, 337: \<open>goto done\<close>); the delete of the
  single stale owner of the port does not (lines 263-269 only log). Below, \<open>svc-a\<close> owns
  port 100 and \<open>svc-b\<close> is stored on port 100. The sixth call into a collaborator is that
  delete (after \<open>talloc_new\<close>, the start of the transaction, and \<open>talloc_new\<close>,
  \<open>ldb_dn_new_fmt\<close> and \<open>ldb_search\<close> in the lookup by port); it fails with \<open>EIO\<close>. The
  call returns \<open>EOK\<close>, the transaction is committed, and the cache holds the new entry
  next to the one that should have gone.
\<close>

theorem stale_owner_delete_failure_not_escalated:
  "sysdb_store_service
     \<lparr>ldb = [(''name=svc-a,cn=services,cn=d,cn=sysdb'',
              \<lparr>name = Some ''svc-a'', svc_port = Some 100, aliases = [], protocols = [''tcp''],
               create_time = Some 1, last_update = Some 1, cache_expire = Some 0\<rparr>)],
      txs = [], domain_name = ''d'', clock = 7,
      faults = [0, 0, 0, 0, 0, EIO], cancel_faults = []\<rparr>
     ''svc-b'' 100 [] [''tcp''] 3600 50
   = (EOK,
      \<lparr>ldb = [(''name=svc-a,cn=services,cn=d,cn=sysdb'',
              \<lparr>name = Some ''svc-a'', svc_port = Some 100, aliases = [], protocols = [''tcp''],
               create_time = Some 1, last_update = Some 1, cache_expire = Some 0\<rparr>),
             (''name=svc-b,cn=services,cn=d,cn=sysdb'',
              \<lparr>name = Some ''svc-b'', svc_port = Some 100, aliases = [], protocols = [''tcp''],
               create_time = Some 7, last_update = Some 50, cache_expire = Some 3650\<rparr>)],
      txs = [], domain_name = ''d'', clock = 7, faults = [], cancel_faults = []\<rparr>)"
  by (simp add: eval_defs)

section \<open>The flag \<open>in_transaction\<close> of \<open>sysdb_svc_delete\<close>\<close>

text \<open>
  C10. The flag that decides whether \<open>sysdb_svc_delete\<close> cancels the transaction should
  have a value on every path to the label \<open>done\<close>. It has none when
  \<open>sysdb_transaction_start\<close> fails: line 644 jumps to \<open>done\<close> before the first assignment
  (line 646), and line 679 reads the variable. Below the allocation works and the start
  of the transaction fails with \<open>EIO\<close>.
\<close>

theorem svc_delete_reads_unset_flag:
  "sysdb_svc_delete
     \<lparr>ldb = [], txs = [], domain_name = ''d'', clock = 7,
      faults = [0, EIO], cancel_faults = []\<rparr>
     (Some ''ldap'') 0 None
   = Uninitialized_read"
  by (simp add: eval_defs)

text \<open>
  On the path through the commit the flag is set to \<open>false\<close> whatever the commit returns
  (line 676), where \<open>sysdb_store_service\<close> clears it only after a successful commit
  (line 387). Below one entry matches, its delete works and the commit fails with \<open>EIO\<close>
  (the ninth call into a collaborator): the error is returned, the transaction is neither
  committed nor cancelled, and the entry stays deleted.
\<close>

lemma svc_delete_failed_commit_not_cancelled:
  "sysdb_svc_delete
     \<lparr>ldb = [(''a'', \<lparr>name = Some ''ldap'', svc_port = Some 389, aliases = [],
                     protocols = [''tcp''], create_time = Some 1, last_update = Some 1,
                     cache_expire = Some 0\<rparr>)],
      txs = [], domain_name = ''d'', clock = 7,
      faults = [0, 0, 0, 0, 0, 0, 0, EIO], cancel_faults = []\<rparr>
     (Some ''ldap'') 0 None
   = Returns (EIO,
     \<lparr>ldb = [],
      txs = [[(''a'', \<lparr>name = Some ''ldap'', svc_port = Some 389, aliases = [],
                      protocols = [''tcp''], create_time = Some 1, last_update = Some 1,
                      cache_expire = Some 0\<rparr>)]],
      domain_name = ''d'', clock = 7, faults = [], cancel_faults = []\<rparr>)"
  by (simp add: eval_defs)

section \<open>The update of an existing entry\<close>

text \<open>
  C4 as the code has it. When the name pass has found the entry to update, lines 359-361
  call \<open>sysdb_svc_update\<close>, and a successful update replaces the port and the protocols
  of that entry by the incoming values; it replaces the aliases by the incoming ones when
  there are any, and leaves the aliases of the entry as they are when the incoming list
  is empty (the guard of line 549 puts no alias element into the message then). The
  other attributes and the other entries stay.
\<close>

theorem update_replaces_port_and_protocols:
  assumes "apply_record s (Some dn) primary_name port als protos = (Inr dn', s')"
  shows "dn' = dn \<and> protos \<noteq> [] \<and>
     ldb s' = map (\<lambda>m. if fst m = dn
                        then (fst m, (snd m)\<lparr>svc_port := Some port,
                               aliases := (if als = [] then aliases (snd m) else als),
                               protocols := protos\<rparr>)
                        else m) (ldb s)"
proof -
  obtain ret s1 where upd: "sysdb_svc_update s (Some dn) port als protos = (ret, s1)"
    by (cases "sysdb_svc_update s (Some dn) port als protos")
  with assms have "ret = EOK" "dn' = dn" "s' = s1"
    by (auto simp: apply_record_def split: if_splits)
  with svc_updateD [OF upd] show ?thesis by auto
qed

theorem update_replaces_port_and_protocols_witness:
  "apply_record
     \<lparr>ldb = [(''a'', \<lparr>name = Some ''svc-a'', svc_port = Some 100, aliases = [''www''],
                     protocols = [''tcp''], create_time = Some 1, last_update = Some 1,
                     cache_expire = Some 0\<rparr>)],
      txs = [], domain_name = ''d'', clock = 7, faults = [], cancel_faults = []\<rparr>
     (Some ''a'') ''svc-a'' 200 [''web''] [''udp'']
   = (Inr ''a'',
      \<lparr>ldb = [(''a'', \<lparr>name = Some ''svc-a'', svc_port = Some 200, aliases = [''web''],
                     protocols = [''udp''], create_time = Some 1, last_update = Some 1,
                     cache_expire = Some 0\<rparr>)],
      txs = [], domain_name = ''d'', clock = 7, faults = [], cancel_faults = []\<rparr>)"
proof -
  let ?s = "\<lparr>ldb = [(''a'', \<lparr>name = Some ''svc-a'', svc_port = Some 100, aliases = [''www''],
                     protocols = [''tcp''], create_time = Some 1, last_update = Some 1,
                     cache_expire = Some 0\<rparr>)],
      txs = [], domain_name = ''d'', clock = 7, faults = [], cancel_faults = []\<rparr>"
  obtain s' where call: "apply_record ?s (Some ''a'') ''svc-a'' 200 [''web''] [''udp''] = (Inr ''a'', s')"
    and rest: "txs s' = []" "domain_name s' = ''d''" "clock s' = 7" "faults s' = []"
      "cancel_faults s' = []"
    by (simp add: eval_defs)
  from update_replaces_port_and_protocols [OF call]
  have "ldb s' = [(''a'', \<lparr>name = Some ''svc-a'', svc_port = Some 200, aliases = [''web''],
                     protocols = [''udp''], create_time = Some 1, last_update = Some 1,
                     cache_expire = Some 0\<rparr>)]"
    by simp
  with rest have "s' = ?s\<lparr>ldb := [(''a'', \<lparr>name = Some ''svc-a'', svc_port = Some 200,
      aliases = [''web''], protocols = [''udp''], create_time = Some 1, last_update = Some 1,
      cache_expire = Some 0\<rparr>)]\<rparr>"
    by (cases s') simp
  with call show ?thesis by simp
qed

text \<open>
  C4 as stated fails: an update with an empty alias list does not leave the record
  without aliases. The cached \<open>svc-a\<close> has the alias \<open>www\<close>; it is stored again with
  no aliases; the call succeeds and the alias is still there.
\<close>

theorem update_with_no_aliases_keeps_aliases:
  "sysdb_store_service
     \<lparr>ldb = [(''name=svc-a,cn=services,cn=d,cn=sysdb'',
              \<lparr>name = Some ''svc-a'', svc_port = Some 100, aliases = [''www''],
               protocols = [''tcp''], create_time = Some 1, last_update = Some 1,
               cache_expire = Some 0\<rparr>)],
      txs = [], domain_name = ''d'', clock = 7, faults = [], cancel_faults = []\<rparr>
     ''svc-a'' 100 [] [''tcp''] 3600 50
   = (EOK,
      \<lparr>ldb = [(''name=svc-a,cn=services,cn=d,cn=sysdb'',
              \<lparr>name = Some ''svc-a'', svc_port = Some 100, aliases = [''www''],
               protocols = [''tcp''], create_time = Some 1, last_update = Some 50,
               cache_expire = Some 3650\<rparr>)],
      txs = [], domain_name = ''d'', clock = 7, faults = [], cancel_faults = []\<rparr>)"
  by (simp add: eval_defs)

section \<open>The deleter\<close>

text \<open>
  C9. \<open>sysdb_svc_delete\<close> is idempotent on absence and deletes every match. The
  collaborators work, the store holds one entry per identifier, and the call is given a
  name or, with no name, a positive port (ports of cached records are positive, and the
  lookup by port accepts no other). Then the call returns \<open>EOK\<close>, and the final context
  is given in full. When no entry matches, it is the initial context but for one call
  used of the schedule of \<open>sysdb_transaction_cancel\<close>: the transaction is cancelled
  (lines 651-655 and 659-663 go to \<open>done\<close>, lines 679-680) and the cache is unchanged. When entries match, the
  transaction is committed, and the cache holds exactly the entries that do not match:
  every match is deleted, all duplicates and not the first only.
\<close>

theorem svc_delete_removes_every_match:
  assumes free: "faults s = []" and cancel: "cancel_works s"
    and dns: "distinct (map fst (ldb s))"
    and arg: "nm \<noteq> None \<or> 0 < port"
  shows "sysdb_svc_delete s nm port proto =
           Returns (EOK,
             if filter (\<lambda>m. filter_match
                  (case nm of Some n \<Rightarrow> By_name proto n | None \<Rightarrow> By_port proto port)
                  (snd m)) (ldb s) = []
             then s\<lparr>cancel_faults := tl (cancel_faults s)\<rparr>
             else s\<lparr>ldb := filter (\<lambda>m. \<not> filter_match
                  (case nm of Some n \<Rightarrow> By_name proto n | None \<Rightarrow> By_port proto port)
                  (snd m)) (ldb s)\<rparr>)"
proof -
  let ?flt = "case nm of Some n \<Rightarrow> By_name proto n | None \<Rightarrow> By_port proto port"
  let ?res = "filter (\<lambda>m. filter_match ?flt (snd m)) (ldb s)"
  let ?s1 = "s\<lparr>txs := ldb s # txs s\<rparr>"
  have f1: "faults ?s1 = []" using free by simp
  have look: "(case nm of Some n \<Rightarrow> sysdb_getservbyname ?s1 n proto
                | None \<Rightarrow> sysdb_getservbyport ?s1 port proto)
      = (if ?res = [] then Inl ENOENT else Inr ?res, ?s1)"
    using arg f1 by (cases nm) (simp_all add: getservbyname_free getservbyport_free Let_def)
  have cw: "cancel_works ?s1" using cancel by (simp add: cancel_works_def)
  show ?thesis
  proof (cases "?res = []")
    case True
    from True look free cancel_restores [OF cw, of "ldb s" "txs s"] show ?thesis
      by (simp add: sysdb_svc_delete_def talloc_new_def next_fault_free
          sysdb_transaction_start_def svc_delete_done_def errno_defs)
  next
    case False
    have "delete_found_entries ?s1 ?res =
        (EOK, ?s1\<lparr>ldb := filter (\<lambda>x. fst x \<notin> fst ` set ?res) (ldb ?s1)\<rparr>)"
      using f1 dns by (intro delete_found_entries_free) (auto simp: distinct_map_filter)
    with filter_by_dn [OF dns, of "\<lambda>m. filter_match ?flt (snd m)"]
    have del: "delete_found_entries ?s1 ?res =
        (EOK, ?s1\<lparr>ldb := filter (\<lambda>m. \<not> filter_match ?flt (snd m)) (ldb s)\<rparr>)"
      by simp
    from False look free del show ?thesis
      by (simp add: sysdb_svc_delete_def talloc_new_def next_fault_free
          sysdb_transaction_start_def sysdb_transaction_commit_def svc_delete_done_def errno_defs)
  qed
qed

theorem svc_delete_removes_every_match_witness:
  "sysdb_svc_delete
     \<lparr>ldb = [(''a'', \<lparr>name = Some ''svc-a'', svc_port = Some 100, aliases = [],
                     protocols = [''tcp''], create_time = Some 1, last_update = Some 1,
                     cache_expire = Some 0\<rparr>),
             (''b'', \<lparr>name = Some ''svc-b'', svc_port = Some 100, aliases = [],
                     protocols = [''udp''], create_time = Some 1, last_update = Some 1,
                     cache_expire = Some 0\<rparr>)],
      txs = [], domain_name = ''d'', clock = 7, faults = [], cancel_faults = [0, 5]\<rparr>
     (Some ''nonexistent'') 0 None
   = Returns (EOK,
     \<lparr>ldb = [(''a'', \<lparr>name = Some ''svc-a'', svc_port = Some 100, aliases = [],
                     protocols = [''tcp''], create_time = Some 1, last_update = Some 1,
                     cache_expire = Some 0\<rparr>),
             (''b'', \<lparr>name = Some ''svc-b'', svc_port = Some 100, aliases = [],
                     protocols = [''udp''], create_time = Some 1, last_update = Some 1,
                     cache_expire = Some 0\<rparr>)],
      txs = [], domain_name = ''d'', clock = 7, faults = [], cancel_faults = [5]\<rparr>)
   \<and> sysdb_svc_delete
     \<lparr>ldb = [(''a'', \<lparr>name = Some ''svc-a'', svc_port = Some 100, aliases = [],
                     protocols = [''tcp''], create_time = Some 1, last_update = Some 1,
                     cache_expire = Some 0\<rparr>),
             (''b'', \<lparr>name = Some ''svc-b'', svc_port = Some 100, aliases = [],
                     protocols = [''udp''], create_time = Some 1, last_update = Some 1,
                     cache_expire = Some 0\<rparr>)],
      txs = [], domain_name = ''d'', clock = 7, faults = [], cancel_faults = [0, 5]\<rparr>
     None 100 None
   = Returns (EOK,
     \<lparr>ldb = [], txs = [], domain_name = ''d'', clock = 7, faults = [],
      cancel_faults = [0, 5]\<rparr>)"
proof -
  let ?s = "\<lparr>ldb = [(''a'', \<lparr>name = Some ''svc-a'', svc_port = Some 100, aliases = [],
                     protocols = [''tcp''], create_time = Some 1, last_update = Some 1,
                     cache_expire = Some 0\<rparr>),
             (''b'', \<lparr>name = Some ''svc-b'', svc_port = Some 100, aliases = [],
                     protocols = [''udp''], create_time = Some 1, last_update = Some 1,
                     cache_expire = Some 0\<rparr>)],
      txs = [], domain_name = ''d'', clock = 7, faults = [], cancel_faults = [0, 5]\<rparr>"
  have h: "faults ?s = []" "cancel_works ?s" "distinct (map fst (ldb ?s))"
    by (simp_all add: cancel_works_def EOK_def)
  have a1: "Some ''nonexistent'' \<noteq> None \<or> (0::int) < 0" by simp
  have a2: "(None :: string option) \<noteq> None \<or> (0::int) < 100" by simp
  from svc_delete_removes_every_match [OF h a1, of None]
    svc_delete_removes_every_match [OF h a2, of None]
  show ?thesis by (simp add: proto_match_def)
qed

text \<open>
  The other selectors. With no name and a port that is not positive, the lookup by port
  rejects the port (line 132) and \<open>sysdb_svc_delete\<close> passes the error on (lines
  657-658): it returns \<open>EINVAL\<close>, the transaction is cancelled and the cache is
  unchanged.
\<close>

lemma svc_delete_rejects_nonpositive_port:
  assumes free: "faults s = []" and cancel: "cancel_works s" and port: "port \<le> 0"
  shows "sysdb_svc_delete s None port proto =
           Returns (EINVAL, s\<lparr>cancel_faults := tl (cancel_faults s)\<rparr>)"
proof -
  let ?s1 = "s\<lparr>txs := ldb s # txs s\<rparr>"
  have cw: "cancel_works ?s1" using cancel by (simp add: cancel_works_def)
  from port free cancel_restores [OF cw, of "ldb s" "txs s"] show ?thesis
    by (simp add: sysdb_svc_delete_def talloc_new_def next_fault_free sysdb_getservbyport_def
        sysdb_transaction_start_def svc_delete_done_def errno_defs)
qed

section \<open>Port uniqueness after a failed delete\<close>

text \<open>
  C2. After a successful \<open>sysdb_store_service\<close> at most one entry should have a given
  port. The input is that of C3: \<open>svc-a\<close> owns port 100, \<open>svc-b\<close> is stored on port 100,
  and the delete of \<open>svc-a\<close> at line 263 fails. The call returns \<open>EOK\<close>; afterwards two
  entries have port 100, and a lookup by port 100 returns both, \<open>svc-a\<close> first.
\<close>

theorem two_owners_of_a_port_after_success:
  "fst (sysdb_store_service
     \<lparr>ldb = [(''name=svc-a,cn=services,cn=d,cn=sysdb'',
              \<lparr>name = Some ''svc-a'', svc_port = Some 100, aliases = [], protocols = [''tcp''],
               create_time = Some 1, last_update = Some 1, cache_expire = Some 0\<rparr>)],
      txs = [], domain_name = ''d'', clock = 7,
      faults = [0, 0, 0, 0, 0, EIO], cancel_faults = []\<rparr>
     ''svc-b'' 100 [] [''tcp''] 3600 50) = EOK
   \<and> map (\<lambda>m. (name (snd m), svc_port (snd m)))
       (ldb (snd (sysdb_store_service
     \<lparr>ldb = [(''name=svc-a,cn=services,cn=d,cn=sysdb'',
              \<lparr>name = Some ''svc-a'', svc_port = Some 100, aliases = [], protocols = [''tcp''],
               create_time = Some 1, last_update = Some 1, cache_expire = Some 0\<rparr>)],
      txs = [], domain_name = ''d'', clock = 7,
      faults = [0, 0, 0, 0, 0, EIO], cancel_faults = []\<rparr>
     ''svc-b'' 100 [] [''tcp''] 3600 50)))
     = [(Some ''svc-a'', Some 100), (Some ''svc-b'', Some 100)]
   \<and> map_sum id (map (\<lambda>m. name (snd m)))
       (fst (sysdb_getservbyport (snd (sysdb_store_service
     \<lparr>ldb = [(''name=svc-a,cn=services,cn=d,cn=sysdb'',
              \<lparr>name = Some ''svc-a'', svc_port = Some 100, aliases = [], protocols = [''tcp''],
               create_time = Some 1, last_update = Some 1, cache_expire = Some 0\<rparr>)],
      txs = [], domain_name = ''d'', clock = 7,
      faults = [0, 0, 0, 0, 0, EIO], cancel_faults = []\<rparr>
     ''svc-b'' 100 [] [''tcp''] 3600 50)) 100 None))
     = Inr [Some ''svc-a'', Some ''svc-b'']"
  by (simp add: eval_defs)

section \<open>What a successful call leaves in the cache\<close>

text \<open>
  The three theorems of this section are about calls in which every collaborator works
  (the schedule of failures is empty), on a store that holds one entry per identifier.

  C7. After a successful \<open>sysdb_store_service\<close> with a protocol list that is not empty,
  a lookup of the primary name returns exactly one entry: its name is the primary name,
  its port and protocols are the ones stored, its \<open>lastUpdate\<close> is \<open>now\<close>, and its
  \<open>cacheExpire\<close> is \<open>now + cache_timeout\<close> (the 64-bit sum of the C expression), or 0
  when \<open>cache_timeout\<close> is 0.
\<close>

theorem store_then_lookup:
  assumes "faults s = []" and "distinct (map fst (ldb s))" and "protos \<noteq> []"
    and "sysdb_store_service s primary_name port als protos cache_timeout now = (EOK, s')"
  shows "\<exists>dn e. sysdb_getservbyname s' primary_name None = (Inr [(dn, e)], s') \<and>
     name e = Some primary_name \<and> svc_port e = Some port \<and> protocols e = protos \<and>
     last_update e = Some now \<and>
     cache_expire e = Some (if cache_timeout = 0 then 0 else now + cache_timeout)"
proof -
  from assms obtain dn e where
    "filter (\<lambda>m. filter_match (By_name None primary_name) (snd m)) (ldb s') = [(dn, e)]"
    "name e = Some primary_name" "svc_port e = Some port" "protocols e = protos"
    "last_update e = Some now"
    "cache_expire e = Some (if cache_timeout \<noteq> 0 then now + cache_timeout else 0)"
    "faults s' = []"
    by (rule store_service_result)
  then show ?thesis
    by (simp add: getservbyname_free)
qed

theorem store_then_lookup_witness:
  "sysdb_store_service
     \<lparr>ldb = [], txs = [], domain_name = ''d'', clock = 7, faults = [], cancel_faults = []\<rparr>
     ''ldap'' 389 [] [''tcp''] 3600 50
   = (EOK,
      \<lparr>ldb = [(''name=ldap,cn=services,cn=d,cn=sysdb'',
               \<lparr>name = Some ''ldap'', svc_port = Some 389, aliases = [],
                protocols = [''tcp''], create_time = Some 7, last_update = Some 50,
                cache_expire = Some 3650\<rparr>)],
       txs = [], domain_name = ''d'', clock = 7, faults = [], cancel_faults = []\<rparr>)
   \<and> (\<exists>dn e. sysdb_getservbyname
      \<lparr>ldb = [(''name=ldap,cn=services,cn=d,cn=sysdb'',
               \<lparr>name = Some ''ldap'', svc_port = Some 389, aliases = [],
                protocols = [''tcp''], create_time = Some 7, last_update = Some 50,
                cache_expire = Some 3650\<rparr>)],
       txs = [], domain_name = ''d'', clock = 7, faults = [], cancel_faults = []\<rparr>
      ''ldap'' None
      = (Inr [(dn, e)],
      \<lparr>ldb = [(''name=ldap,cn=services,cn=d,cn=sysdb'',
               \<lparr>name = Some ''ldap'', svc_port = Some 389, aliases = [],
                protocols = [''tcp''], create_time = Some 7, last_update = Some 50,
                cache_expire = Some 3650\<rparr>)],
       txs = [], domain_name = ''d'', clock = 7, faults = [], cancel_faults = []\<rparr>)
      \<and> svc_port e = Some 389 \<and> protocols e = [''tcp''] \<and> last_update e = Some 50
      \<and> cache_expire e = Some 3650)"
proof -
  let ?s = "\<lparr>ldb = [], txs = [], domain_name = ''d'', clock = 7, faults = [],
     cancel_faults = []\<rparr>"
  let ?s' = "\<lparr>ldb = [(''name=ldap,cn=services,cn=d,cn=sysdb'',
               \<lparr>name = Some ''ldap'', svc_port = Some 389, aliases = [],
                protocols = [''tcp''], create_time = Some 7, last_update = Some 50,
                cache_expire = Some 3650\<rparr>)],
       txs = [], domain_name = ''d'', clock = 7, faults = [], cancel_faults = []\<rparr>"
  have call: "sysdb_store_service ?s ''ldap'' 389 [] [''tcp''] 3600 50 = (EOK, ?s')"
    by (simp add: eval_defs)
  have h: "faults ?s = []" "distinct (map fst (ldb ?s))" "[''tcp''] \<noteq> []" by simp_all
  from store_then_lookup [OF h call] call show ?thesis by auto
qed

text \<open>
  C6. Alias demotion. The cache holds an entry \<open>(d, e)\<close> named \<open>a\<close> (\<open>svc-a\<close>) that a
  lookup can find (it has a protocol), with the name \<open>primary_name\<close> (\<open>foo\<close>) among its
  aliases; \<open>primary_name\<close> is not \<open>a\<close>, and the port of the entry is not the port
  stored, so that the port pass does not evict the entry. After a successful
  \<open>sysdb_store_service\<close> of \<open>primary_name\<close> the entry is still cached under \<open>d\<close>,
  changed in nothing but its aliases, from which \<open>primary_name\<close> is removed and nothing
  else. No entry that a lookup can find and that has another name has \<open>primary_name\<close>
  among its aliases. A lookup of \<open>primary_name\<close> returns exactly one entry: it is named
  \<open>primary_name\<close> and has the port and the protocols stored.
\<close>

theorem alias_demotion:
  assumes "faults s = []" and "distinct (map fst (ldb s))" and "protos \<noteq> []"
    and "sysdb_store_service s primary_name port als protos cache_timeout now = (EOK, s')"
    and "(d, e) \<in> set (ldb s)" and "name e = Some a" and "a \<noteq> primary_name"
    and "primary_name \<in> set (aliases e)" and "protocols e \<noteq> []"
    and "svc_port e \<noteq> Some port"
  shows "(d, e\<lparr>aliases := filter (\<lambda>x. x \<noteq> primary_name) (aliases e)\<rparr>) \<in> set (ldb s') \<and>
         (\<forall>m \<in> set (ldb s'). protocols (snd m) \<noteq> [] \<and> name (snd m) \<noteq> Some primary_name
            \<longrightarrow> primary_name \<notin> set (aliases (snd m))) \<and>
         (\<exists>dn e'. sysdb_getservbyname s' primary_name None = (Inr [(dn, e')], s') \<and>
            name e' = Some primary_name \<and> svc_port e' = Some port \<and> protocols e' = protos)"
proof -
  let ?V = "\<lambda>m. filter_match (By_name None primary_name) (snd m)"
  from assms(1-4) obtain dn e' where
    vis: "filter ?V (ldb s') = [(dn, e')]" and nm: "name e' = Some primary_name"
    and po: "svc_port e' = Some port" and pr: "protocols e' = protos"
    and f: "faults s' = []"
    by (rule store_service_result)
  from assms(1,2,4-10)
  have kept: "(d, e\<lparr>aliases := filter (\<lambda>x. x \<noteq> primary_name) (aliases e)\<rparr>) \<in> set (ldb s')"
    by (rule store_service_keeps)
  have "primary_name \<notin> set (aliases (snd m))"
    if m: "m \<in> set (ldb s')" "protocols (snd m) \<noteq> []" "name (snd m) \<noteq> Some primary_name" for m
  proof
    assume "primary_name \<in> set (aliases (snd m))"
    with m have "m \<in> set (filter ?V (ldb s'))" by (simp add: proto_match_def)
    then have "m = (dn, e')" unfolding vis by simp
    with nm m(3) show False by simp
  qed
  moreover from vis nm po pr f
  have "\<exists>dn e'. sysdb_getservbyname s' primary_name None = (Inr [(dn, e')], s') \<and>
            name e' = Some primary_name \<and> svc_port e' = Some port \<and> protocols e' = protos"
    by (simp add: getservbyname_free)
  ultimately show ?thesis using kept by blast
qed

theorem alias_demotion_witness:
  "sysdb_store_service
     \<lparr>ldb = [(''a'', \<lparr>name = Some ''svc-a'', svc_port = Some 100, aliases = [''foo'', ''bar''],
                     protocols = [''tcp''], create_time = Some 1, last_update = Some 1,
                     cache_expire = Some 0\<rparr>)],
      txs = [], domain_name = ''d'', clock = 7, faults = [], cancel_faults = []\<rparr>
     ''foo'' 101 [] [''udp''] 0 50
   = (EOK,
      \<lparr>ldb = [(''a'', \<lparr>name = Some ''svc-a'', svc_port = Some 100, aliases = [''bar''],
                     protocols = [''tcp''], create_time = Some 1, last_update = Some 1,
                     cache_expire = Some 0\<rparr>),
              (''name=foo,cn=services,cn=d,cn=sysdb'',
               \<lparr>name = Some ''foo'', svc_port = Some 101, aliases = [],
                protocols = [''udp''], create_time = Some 7, last_update = Some 50,
                cache_expire = Some 0\<rparr>)],
       txs = [], domain_name = ''d'', clock = 7, faults = [], cancel_faults = []\<rparr>)
   \<and> (''a'', \<lparr>name = Some ''svc-a'', svc_port = Some 100, aliases = [''bar''],
                     protocols = [''tcp''], create_time = Some 1, last_update = Some 1,
                     cache_expire = Some 0\<rparr>)
     \<in> set [(''a'', \<lparr>name = Some ''svc-a'', svc_port = Some 100, aliases = [''bar''],
                     protocols = [''tcp''], create_time = Some 1, last_update = Some 1,
                     cache_expire = Some 0\<rparr>),
              (''name=foo,cn=services,cn=d,cn=sysdb'',
               \<lparr>name = Some ''foo'', svc_port = Some 101, aliases = [],
                protocols = [''udp''], create_time = Some 7, last_update = Some 50,
                cache_expire = Some 0\<rparr>)]
   \<and> ''foo'' \<notin> set [''bar'']
   \<and> (\<exists>dn e. sysdb_getservbyname
      \<lparr>ldb = [(''a'', \<lparr>name = Some ''svc-a'', svc_port = Some 100, aliases = [''bar''],
                     protocols = [''tcp''], create_time = Some 1, last_update = Some 1,
                     cache_expire = Some 0\<rparr>),
              (''name=foo,cn=services,cn=d,cn=sysdb'',
               \<lparr>name = Some ''foo'', svc_port = Some 101, aliases = [],
                protocols = [''udp''], create_time = Some 7, last_update = Some 50,
                cache_expire = Some 0\<rparr>)],
       txs = [], domain_name = ''d'', clock = 7, faults = [], cancel_faults = []\<rparr>
      ''foo'' None
      = (Inr [(dn, e)],
      \<lparr>ldb = [(''a'', \<lparr>name = Some ''svc-a'', svc_port = Some 100, aliases = [''bar''],
                     protocols = [''tcp''], create_time = Some 1, last_update = Some 1,
                     cache_expire = Some 0\<rparr>),
              (''name=foo,cn=services,cn=d,cn=sysdb'',
               \<lparr>name = Some ''foo'', svc_port = Some 101, aliases = [],
                protocols = [''udp''], create_time = Some 7, last_update = Some 50,
                cache_expire = Some 0\<rparr>)],
       txs = [], domain_name = ''d'', clock = 7, faults = [], cancel_faults = []\<rparr>)
      \<and> name e = Some ''foo'' \<and> svc_port e = Some 101 \<and> protocols e = [''udp''])"
proof -
  let ?a = "\<lparr>name = Some ''svc-a'', svc_port = Some 100, aliases = [''foo'', ''bar''],
             protocols = [''tcp''], create_time = Some 1, last_update = Some 1,
             cache_expire = Some 0\<rparr>"
  let ?s = "\<lparr>ldb = [(''a'', ?a)],
      txs = [], domain_name = ''d'', clock = 7, faults = [], cancel_faults = []\<rparr>"
  let ?s' = "\<lparr>ldb = [(''a'', \<lparr>name = Some ''svc-a'', svc_port = Some 100, aliases = [''bar''],
                     protocols = [''tcp''], create_time = Some 1, last_update = Some 1,
                     cache_expire = Some 0\<rparr>),
              (''name=foo,cn=services,cn=d,cn=sysdb'',
               \<lparr>name = Some ''foo'', svc_port = Some 101, aliases = [],
                protocols = [''udp''], create_time = Some 7, last_update = Some 50,
                cache_expire = Some 0\<rparr>)],
       txs = [], domain_name = ''d'', clock = 7, faults = [], cancel_faults = []\<rparr>"
  have call: "sysdb_store_service ?s ''foo'' 101 [] [''udp''] 0 50 = (EOK, ?s')"
    by (simp add: eval_defs)
  have h: "faults ?s = []" "distinct (map fst (ldb ?s))" "[''udp''] \<noteq> []" by simp_all
  have holder: "(''a'', ?a) \<in> set (ldb ?s)" "name ?a = Some ''svc-a''" "''svc-a'' \<noteq> ''foo''"
    "''foo'' \<in> set (aliases ?a)" "protocols ?a \<noteq> []" "svc_port ?a \<noteq> Some 101"
    by simp_all
  note inst = alias_demotion [OF h call holder]
  from inst have k0: "(''a'', ?a\<lparr>aliases := filter (\<lambda>x. x \<noteq> ''foo'') (aliases ?a)\<rparr>)
      \<in> set (ldb ?s')" by (rule conjunct1)
  from inst have "\<forall>m \<in> set (ldb ?s'). protocols (snd m) \<noteq> [] \<and> name (snd m) \<noteq> Some ''foo''
            \<longrightarrow> ''foo'' \<notin> set (aliases (snd m))" by blast
  then have 1: "''foo'' \<notin> set [''bar'']" by simp
  from inst have 2: "\<exists>dn e. sysdb_getservbyname ?s' ''foo'' None = (Inr [(dn, e)], ?s') \<and>
            name e = Some ''foo'' \<and> svc_port e = Some 101 \<and> protocols e = [''udp'']"
    by blast
  from k0 have k1: "(''a'', \<lparr>name = Some ''svc-a'', svc_port = Some 100, aliases = [''bar''],
                     protocols = [''tcp''], create_time = Some 1, last_update = Some 1,
                     cache_expire = Some 0\<rparr>) \<in> set (ldb ?s')" by simp
  from call k1 1 2 show ?thesis by simp
qed

text \<open>
  C5. Repair of a duplicate primary name. The cache holds exactly two entries, under
  different identifiers, both with the primary name that is stored, both with a
  protocol; the port stored is positive. Then the call returns \<open>EOK\<close>, and afterwards
  the cache holds exactly one entry: a new one, under the identifier derived from the
  name, with the values stored and the creation time read from the clock. Both old
  entries are gone. Nothing else of the context changes.
\<close>

theorem duplicate_names_repaired:
  assumes "faults s = []" and "ldb s = [(d1, e1), (d2, e2)]" and "d1 \<noteq> d2"
    and "name e1 = Some primary_name" and "name e2 = Some primary_name"
    and "protocols e1 \<noteq> []" and "protocols e2 \<noteq> []" and "0 < port"
  shows "sysdb_store_service s primary_name port als protos cache_timeout now =
     (EOK, s\<lparr>ldb := [(SYSDB_TMPL_SVC primary_name (domain_name s),
                       \<lparr>name = Some primary_name, svc_port = Some port, aliases = als,
                        protocols = protos, create_time = Some (clock s),
                        last_update = Some now,
                        cache_expire = Some (if cache_timeout \<noteq> 0 then now + cache_timeout else 0)\<rparr>)]\<rparr>)"
  using assms
  by (simp add: eval_defs add_strings_free)

theorem duplicate_names_repaired_witness:
  "sysdb_store_service
     \<lparr>ldb = [(''x1'', \<lparr>name = Some ''svc-x'', svc_port = Some 100, aliases = [],
                      protocols = [''tcp''], create_time = Some 1, last_update = Some 1,
                      cache_expire = Some 0\<rparr>),
             (''x2'', \<lparr>name = Some ''svc-x'', svc_port = Some 101, aliases = [''x''],
                      protocols = [''udp''], create_time = Some 2, last_update = Some 2,
                      cache_expire = Some 0\<rparr>)],
      txs = [], domain_name = ''d'', clock = 7, faults = [], cancel_faults = []\<rparr>
     ''svc-x'' 100 [] [''tcp''] 3600 50
   = (EOK,
      \<lparr>ldb = [(''name=svc-x,cn=services,cn=d,cn=sysdb'',
               \<lparr>name = Some ''svc-x'', svc_port = Some 100, aliases = [],
                protocols = [''tcp''], create_time = Some 7, last_update = Some 50,
                cache_expire = Some 3650\<rparr>)],
      txs = [], domain_name = ''d'', clock = 7, faults = [], cancel_faults = []\<rparr>)"
  using duplicate_names_repaired [of
     "\<lparr>ldb = [(''x1'', \<lparr>name = Some ''svc-x'', svc_port = Some 100, aliases = [],
                      protocols = [''tcp''], create_time = Some 1, last_update = Some 1,
                      cache_expire = Some 0\<rparr>),
             (''x2'', \<lparr>name = Some ''svc-x'', svc_port = Some 101, aliases = [''x''],
                      protocols = [''udp''], create_time = Some 2, last_update = Some 2,
                      cache_expire = Some 0\<rparr>)],
      txs = [], domain_name = ''d'', clock = 7, faults = [], cancel_faults = []\<rparr>"
     "''x1''" _ "''x2''" _ "''svc-x''" 100 "[]" "[''tcp'']" 3600 50]
  by (simp add: SYSDB_TMPL_SVC_def)

end
